theory Spec2Isabelle
  imports Complex_Main
begin

section \<open>The game simulation of gh-space-shooter (game/game_state.py)\<close>

text \<open>
  The theory embeds the classes \<open>Explosion\<close>, \<open>Enemy\<close>, \<open>Bullet\<close>, \<open>Ship\<close> and
  \<open>GameState\<close> of \<^verbatim>\<open>src/gh_space_shooter/game/game_state.py\<close>.

  \<^item> Python objects have an identity: \<open>list.remove(self)\<close> removes the object itself, and an
    entity that has left its collection keeps its fields. The three collections are therefore
    lists of references, and the objects live in a store per class (\<open>enemy_of\<close>,
    \<open>bullet_of\<close>, \<open>explosion_of\<close>); \<open>next_ref\<close> is the next unused reference.
  \<^item> Python floats are modelled by rationals: the arithmetic of the model is exact.
  \<^item> The values of the constants that the modelled code imports from \<^verbatim>\<open>constants.py\<close> are left
    open: the four constants are the fields of the record \<open>Constants\<close>, a parameter of every
    function that reads one of them.
  \<^item> The only exception the modelled code can raise is the \<open>ValueError\<close> of
    \<open>list.remove\<close> on an object that is not in the list.
  \<^item> \<open>Starfield\<close> (the decorative background) and every \<open>draw\<close> method are left out: they
    read and write nothing of the ship, the enemies, the bullets or the explosions.
\<close>

subsection \<open>Constants, errors, input data\<close>

record Constants =
  BULLET_SPEED :: rat
  SHIP_POSITION_Y :: rat
  SHIP_SHOOT_COOLDOWN_FRAMES :: int
  SHIP_SPEED :: rat

datatype error = ValueError

text \<open>The input: \<open>contribution_data["weeks"]\<close>, \<open>week["days"]\<close>, \<open>day["level"]\<close>.\<close>

record ContributionDay =
  level :: int

record ContributionWeek =
  days :: "ContributionDay list"

record ContributionData =
  weeks :: "ContributionWeek list"

subsection \<open>The entities\<close>

type_synonym ref = nat

text \<open>\<open>Explosion\<close>: fields \<open>x\<close>, \<open>y\<close>, \<open>size\<close>, \<open>color\<close>, \<open>frame\<close>, \<open>max_frames\<close>.\<close>

record Explosion =
  explosion_x :: rat
  explosion_y :: rat
  explosion_size :: string
  explosion_color :: "int \<times> int \<times> int"
  frame :: int
  max_frames :: int

text \<open>\<open>Enemy\<close>: fields \<open>x\<close>, \<open>y\<close>, \<open>health\<close>.\<close>

record Enemy =
  enemy_x :: int
  enemy_y :: int
  health :: int

text \<open>\<open>Bullet\<close>: fields \<open>x\<close> and \<open>y\<close>.\<close>

record Bullet =
  bullet_x :: int
  bullet_y :: rat

text \<open>\<open>Ship\<close>: fields \<open>x\<close>, \<open>target_x\<close>, \<open>shoot_cooldown\<close>.\<close>

record Ship =
  ship_x :: rat
  target_x :: int
  shoot_cooldown :: int

record GameState =
  ship :: Ship
  enemies :: "ref list"
  bullets :: "ref list"
  explosions :: "ref list"
  enemy_of :: "ref \<Rightarrow> Enemy"
  bullet_of :: "ref \<Rightarrow> Bullet"
  explosion_of :: "ref \<Rightarrow> Explosion"
  next_ref :: ref

text \<open>\<open>list.remove(x)\<close>: the first occurrence goes; \<open>ValueError\<close> when there is none.\<close>

definition list_remove :: "ref list \<Rightarrow> ref \<Rightarrow> error + ref list" where
  "list_remove xs r = (if r \<in> set xs then Inr (remove1 r xs) else Inl ValueError)"

text \<open>\<open>int(x)\<close> on a float: truncation towards zero.\<close>

definition py_int :: "rat \<Rightarrow> int" where
  "py_int x = (if 0 \<le> x then \<lfloor>x\<rfloor> else \<lceil>x\<rceil>)"

subsection \<open>Explosion\<close>

definition Explosion_init :: "rat \<Rightarrow> rat \<Rightarrow> string \<Rightarrow> int \<times> int \<times> int \<Rightarrow> Explosion" where
  "Explosion_init x y sz color =
     \<lparr>explosion_x = x, explosion_y = y, explosion_size = sz, explosion_color = color,
      frame = 0, max_frames = (if sz = ''small'' then 6 else 10)\<rparr>"

text \<open>
  \<open>explosion = Explosion(...); self.game_state.explosions.append(explosion)\<close>:
  the new object takes the next reference and goes to the end of the list.
\<close>

definition append_explosion :: "Explosion \<Rightarrow> GameState \<Rightarrow> GameState" where
  "append_explosion ex s =
     s\<lparr>explosions := explosions s @ [next_ref s],
       explosion_of := (explosion_of s)(next_ref s := ex),
       next_ref := Suc (next_ref s)\<rparr>"

definition Explosion_animate :: "ref \<Rightarrow> GameState \<Rightarrow> error + GameState" where
  "Explosion_animate r s =
     (let s1 = s\<lparr>explosion_of := (explosion_of s)
                   (r := (explosion_of s r)\<lparr>frame := frame (explosion_of s r) + 1\<rparr>)\<rparr>
      in if frame (explosion_of s1 r) \<ge> max_frames (explosion_of s1 r)
         then (case list_remove (explosions s1) r of
                 Inl e \<Rightarrow> Inl e
               | Inr xs \<Rightarrow> Inr (s1\<lparr>explosions := xs\<rparr>))
         else Inr s1)"

subsection \<open>Enemy\<close>

definition Enemy_init :: "int \<Rightarrow> int \<Rightarrow> int \<Rightarrow> Enemy" where
  "Enemy_init x y h = \<lparr>enemy_x = x, enemy_y = y, health = h\<rparr>"

definition Enemy_take_damage :: "ref \<Rightarrow> GameState \<Rightarrow> error + GameState" where
  "Enemy_take_damage r s =
     (let s1 = s\<lparr>enemy_of := (enemy_of s)
                   (r := (enemy_of s r)\<lparr>health := health (enemy_of s r) - 1\<rparr>)\<rparr>
      in if health (enemy_of s1 r) \<le> 0
         then (let s2 = append_explosion
                          (Explosion_init (of_int (enemy_x (enemy_of s1 r)))
                             (of_int (enemy_y (enemy_of s1 r))) ''large'' (57, 211, 83)) s1
               in case list_remove (enemies s2) r of
                    Inl e \<Rightarrow> Inl e
                  | Inr xs \<Rightarrow> Inr (s2\<lparr>enemies := xs\<rparr>))
         else Inr s1)"

text \<open>\<open>Enemy.animate\<close> is \<open>pass\<close>.\<close>

definition Enemy_animate :: "ref \<Rightarrow> GameState \<Rightarrow> GameState" where
  "Enemy_animate r s = s"

subsection \<open>Bullet\<close>

definition Bullet_init :: "Constants \<Rightarrow> int \<Rightarrow> Bullet" where
  "Bullet_init c x = \<lparr>bullet_x = x, bullet_y = SHIP_POSITION_Y c - 1\<rparr>"

text \<open>The first enemy, in the order of the collection, in the bullet's column and at or below
  the bullet's row (\<open>enemy.x == self.x and enemy.y >= self.y\<close>).\<close>

definition Bullet_check_collision :: "ref \<Rightarrow> GameState \<Rightarrow> ref option" where
  "Bullet_check_collision r s =
     find (\<lambda>e. enemy_x (enemy_of s e) = bullet_x (bullet_of s r)
              \<and> of_int (enemy_y (enemy_of s e)) \<ge> bullet_y (bullet_of s r))
          (enemies s)"

text \<open>\<open>self.y -= BULLET_SPEED\<close>, the first statement of \<open>Bullet.animate\<close>.\<close>

definition Bullet_move :: "Constants \<Rightarrow> ref \<Rightarrow> GameState \<Rightarrow> GameState" where
  "Bullet_move c r s =
     s\<lparr>bullet_of := (bullet_of s)
          (r := (bullet_of s r)\<lparr>bullet_y := bullet_y (bullet_of s r) - BULLET_SPEED c\<rparr>)\<rparr>"

definition Bullet_animate :: "Constants \<Rightarrow> ref \<Rightarrow> GameState \<Rightarrow> error + GameState" where
  "Bullet_animate c r s =
     (let s1 = Bullet_move c r s;
          after_hit =
            (case Bullet_check_collision r s1 of
               None \<Rightarrow> Inr s1
             | Some hit_enemy \<Rightarrow>
                 (let s2 = append_explosion
                             (Explosion_init (of_int (bullet_x (bullet_of s1 r)))
                                (bullet_y (bullet_of s1 r)) ''small'' (255, 223, 0)) s1
                  in case Enemy_take_damage hit_enemy s2 of
                       Inl e \<Rightarrow> Inl e
                     | Inr s3 \<Rightarrow>
                         (case list_remove (bullets s3) r of
                            Inl e \<Rightarrow> Inl e
                          | Inr xs \<Rightarrow> Inr (s3\<lparr>bullets := xs\<rparr>))))
      in case after_hit of
           Inl e \<Rightarrow> Inl e
         | Inr s4 \<Rightarrow>
             if bullet_y (bullet_of s4 r) < - 10
             then (case list_remove (bullets s4) r of
                     Inl e \<Rightarrow> Inl e
                   | Inr xs \<Rightarrow> Inr (s4\<lparr>bullets := xs\<rparr>))
             else Inr s4)"

subsection \<open>Ship\<close>

definition Ship_init :: Ship where
  "Ship_init = \<lparr>ship_x = 25, target_x = 25, shoot_cooldown = 0\<rparr>"

definition Ship_move_to :: "int \<Rightarrow> Ship \<Rightarrow> Ship" where
  "Ship_move_to x sh = sh\<lparr>target_x := x\<rparr>"

definition Ship_is_moving :: "Ship \<Rightarrow> bool" where
  "Ship_is_moving sh = (ship_x sh \<noteq> of_int (target_x sh))"

definition Ship_can_shoot :: "Ship \<Rightarrow> bool" where
  "Ship_can_shoot sh = (shoot_cooldown sh = 0)"

definition Ship_animate :: "Constants \<Rightarrow> Ship \<Rightarrow> Ship" where
  "Ship_animate c sh =
     (let sh1 = (if ship_x sh < of_int (target_x sh)
                 then sh\<lparr>ship_x := min (ship_x sh + SHIP_SPEED c) (of_int (target_x sh))\<rparr>
                 else if ship_x sh > of_int (target_x sh)
                 then sh\<lparr>ship_x := max (ship_x sh - SHIP_SPEED c) (of_int (target_x sh))\<rparr>
                 else sh)
      in if shoot_cooldown sh1 > 0
         then sh1\<lparr>shoot_cooldown := shoot_cooldown sh1 - 1\<rparr>
         else sh1)"

subsection \<open>GameState\<close>

text \<open>The state of \<open>GameState.__init__\<close> before \<open>_initialize_enemies\<close> runs. No object has been
  created: every cell of the three stores holds a blank object.\<close>

definition GameState_blank :: GameState where
  "GameState_blank =
     \<lparr>ship = Ship_init, enemies = [], bullets = [], explosions = [],
      enemy_of = (\<lambda>_. Enemy_init 0 0 0),
      bullet_of = (\<lambda>_. \<lparr>bullet_x = 0, bullet_y = 0\<rparr>),
      explosion_of = (\<lambda>_. Explosion_init 0 0 [] (0, 0, 0)),
      next_ref = 0\<rparr>"

text \<open>\<open>enemy = Enemy(...); self.enemies.append(enemy)\<close>.\<close>

definition append_enemy :: "Enemy \<Rightarrow> GameState \<Rightarrow> GameState" where
  "append_enemy en s =
     s\<lparr>enemies := enemies s @ [next_ref s],
       enemy_of := (enemy_of s)(next_ref s := en),
       next_ref := Suc (next_ref s)\<rparr>"

text \<open>The inner loop \<open>for day_idx, day in enumerate(week["days"])\<close>, from index \<open>day_idx\<close> on.\<close>

fun initialize_days :: "nat \<Rightarrow> nat \<Rightarrow> ContributionDay list \<Rightarrow> GameState \<Rightarrow> GameState" where
  "initialize_days week_idx day_idx [] s = s"
| "initialize_days week_idx day_idx (day # rest) s =
     (if level day \<le> 0
      then initialize_days week_idx (Suc day_idx) rest s
      else initialize_days week_idx (Suc day_idx) rest
             (append_enemy (Enemy_init (int week_idx) (int day_idx) (level day)) s))"

text \<open>The outer loop \<open>for week_idx, week in enumerate(weeks)\<close>, from index \<open>week_idx\<close> on.\<close>

fun initialize_weeks :: "nat \<Rightarrow> ContributionWeek list \<Rightarrow> GameState \<Rightarrow> GameState" where
  "initialize_weeks week_idx [] s = s"
| "initialize_weeks week_idx (week # rest) s =
     initialize_weeks (Suc week_idx) rest (initialize_days week_idx 0 (days week) s)"

definition GameState_initialize_enemies :: "ContributionData \<Rightarrow> GameState \<Rightarrow> GameState" where
  "GameState_initialize_enemies contribution_data s =
     initialize_weeks 0 (weeks contribution_data) s"

definition GameState_init :: "ContributionData \<Rightarrow> GameState" where
  "GameState_init contribution_data =
     GameState_initialize_enemies contribution_data GameState_blank"

text \<open>\<open>bullet = Bullet(int(self.ship.x), game_state=self); self.bullets.append(bullet);
  self.ship.shoot_cooldown = SHIP_SHOOT_COOLDOWN_FRAMES\<close>.\<close>

definition GameState_shoot :: "Constants \<Rightarrow> GameState \<Rightarrow> GameState" where
  "GameState_shoot c s =
     s\<lparr>bullets := bullets s @ [next_ref s],
       bullet_of := (bullet_of s)(next_ref s := Bullet_init c (py_int (ship_x (ship s)))),
       next_ref := Suc (next_ref s),
       ship := (ship s)\<lparr>shoot_cooldown := SHIP_SHOOT_COOLDOWN_FRAMES c\<rparr>\<rparr>"

definition GameState_is_complete :: "GameState \<Rightarrow> bool" where
  "GameState_is_complete s = (length (enemies s) = 0)"

definition GameState_can_take_action :: "GameState \<Rightarrow> bool" where
  "GameState_can_take_action s = (\<not> Ship_is_moving (ship s) \<and> Ship_can_shoot (ship s))"

text \<open>
  A \<open>for\<close> loop over a Python list keeps an index into the list: each round reads the length
  of the list as it is then, takes the element at the index and moves the index on by one.
  The three loops of \<open>GameState.animate\<close> are written with that index, since the bodies of two
  of them remove elements from the list the loop runs over.
\<close>

function animate_enemies :: "nat \<Rightarrow> GameState \<Rightarrow> GameState" where
  "animate_enemies i s =
     (if i < length (enemies s)
      then animate_enemies (Suc i) (Enemy_animate (enemies s ! i) s)
      else s)"
  by pat_completeness auto
termination
  by (relation "measure (\<lambda>(i, s). length (enemies s) - i)") (auto simp: Enemy_animate_def)

declare animate_enemies.simps [simp del]

lemma list_remove_length:
  "list_remove xs r = Inr ys \<Longrightarrow> length ys < length xs"
  using length_pos_if_in_set [of r xs]
  by (auto simp: list_remove_def length_remove1 split: if_splits)

lemma Explosion_animate_length:
  "Explosion_animate r s = Inr s' \<Longrightarrow> length (explosions s') \<le> length (explosions s)"
  by (auto simp: Explosion_animate_def Let_def split: if_splits sum.splits
           dest!: list_remove_length)

lemma Enemy_take_damage_bullets:
  "Enemy_take_damage r s = Inr s' \<Longrightarrow> bullets s' = bullets s"
  by (auto simp: Enemy_take_damage_def append_explosion_def Let_def
           split: if_splits sum.splits)

lemma Bullet_animate_length:
  "Bullet_animate c r s = Inr s' \<Longrightarrow> length (bullets s') \<le> length (bullets s)"
  by (auto simp: Bullet_animate_def Bullet_move_def append_explosion_def Let_def
           split: if_splits sum.splits option.splits
           dest!: list_remove_length Enemy_take_damage_bullets)

function animate_bullets :: "Constants \<Rightarrow> nat \<Rightarrow> GameState \<Rightarrow> error + GameState" where
  "animate_bullets c i s =
     (if i < length (bullets s)
      then (case Bullet_animate c (bullets s ! i) s of
              Inl e \<Rightarrow> Inl e
            | Inr s' \<Rightarrow> animate_bullets c (Suc i) s')
      else Inr s)"
  by pat_completeness auto
termination
  by (relation "measure (\<lambda>(c, i, s). length (bullets s) - i)")
     (auto dest!: Bullet_animate_length)

declare animate_bullets.simps [simp del]

function animate_explosions :: "nat \<Rightarrow> GameState \<Rightarrow> error + GameState" where
  "animate_explosions i s =
     (if i < length (explosions s)
      then (case Explosion_animate (explosions s ! i) s of
              Inl e \<Rightarrow> Inl e
            | Inr s' \<Rightarrow> animate_explosions (Suc i) s')
      else Inr s)"
  by pat_completeness auto
termination
  by (relation "measure (\<lambda>(i, s). length (explosions s) - i)")
     (auto dest!: Explosion_animate_length)

declare animate_explosions.simps [simp del]

text \<open>\<open>GameState.animate\<close>: the ship, then every enemy, every bullet, every explosion.\<close>

definition GameState_animate :: "Constants \<Rightarrow> GameState \<Rightarrow> error + GameState" where
  "GameState_animate c s =
     (let s1 = s\<lparr>ship := Ship_animate c (ship s)\<rparr>;
          s2 = animate_enemies 0 s1
      in case animate_bullets c 0 s2 of
           Inl e \<Rightarrow> Inl e
         | Inr s3 \<Rightarrow> animate_explosions 0 s3)"

subsection \<open>Notions used in the statements\<close>

text \<open>The distance from the ship's position to its target column.\<close>

definition ship_distance :: "Ship \<Rightarrow> rat" where
  "ship_distance sh = \<bar>ship_x sh - of_int (target_x sh)\<bar>"

text \<open>Values of the four constants for the worked examples.\<close>

definition example_constants :: Constants where
  "example_constants =
     \<lparr>BULLET_SPEED = 1, SHIP_POSITION_Y = 10, SHIP_SHOOT_COOLDOWN_FRAMES = 3,
      SHIP_SPEED = 3 / 4\<rparr>"

text \<open>
  The targets a grid asks for, in the words of the specification: one per cell with an
  intensity above 0, at the cell's column (the index of the week) and row (the index of the
  day), with the cell's intensity as health; weeks in order and, within a week, days in order.
\<close>

definition week_targets :: "nat \<Rightarrow> nat \<Rightarrow> ContributionDay list \<Rightarrow> Enemy list" where
  "week_targets w d ds =
     map (\<lambda>(i, day). Enemy_init (int w) (int i) (level day))
       (filter (\<lambda>(i, day). 0 < level day) (enumerate d ds))"

definition grid_targets_from :: "nat \<Rightarrow> ContributionWeek list \<Rightarrow> Enemy list" where
  "grid_targets_from w ws =
     concat (map (\<lambda>(i, week). week_targets i 0 (days week)) (enumerate w ws))"

definition grid_targets :: "ContributionData \<Rightarrow> Enemy list" where
  "grid_targets g = grid_targets_from 0 (weeks g)"

text \<open>The objects of the target collection, in the order of the collection.\<close>

definition enemy_objects :: "GameState \<Rightarrow> Enemy list" where
  "enemy_objects s = map (enemy_of s) (enemies s)"

text \<open>The references of the target collection are in use and pairwise different.\<close>

definition enemies_allocated :: "GameState \<Rightarrow> bool" where
  "enemies_allocated s = (distinct (enemies s) \<and> (\<forall>r\<in>set (enemies s). r < next_ref s))"

text \<open>Two input grids for the worked examples: one week whose two days have the intensities
  7 and -2, and a grid with no week at all.\<close>

definition example_grid :: ContributionData where
  "example_grid = \<lparr>weeks = [\<lparr>days = [\<lparr>level = 7\<rparr>, \<lparr>level = - 2\<rparr>]\<rparr>]\<rparr>"

definition empty_grid :: ContributionData where
  "empty_grid = \<lparr>weeks = []\<rparr>"

text \<open>The state with no target whose ship, on its way from column 25 to column 27, stands
  at 25.75.\<close>

definition between_columns :: GameState where
  "between_columns =
     (GameState_init empty_grid)\<lparr>ship := \<lparr>ship_x = 103 / 4, target_x = 27, shoot_cooldown = 0\<rparr>\<rparr>"

text \<open>The two conditions of \<open>Bullet.animate\<close>, on the state in which the call starts: the first
  \<open>if\<close> (\<open>hit_enemy\<close> is not \<open>None\<close> once the bullet has moved) and the second (the bullet's
  row is below -10 once it has moved).\<close>

definition hit_branch :: "Constants \<Rightarrow> ref \<Rightarrow> GameState \<Rightarrow> bool" where
  "hit_branch c r s = (Bullet_check_collision r (Bullet_move c r s) \<noteq> None)"

definition exit_branch :: "Constants \<Rightarrow> ref \<Rightarrow> GameState \<Rightarrow> bool" where
  "exit_branch c r s = (bullet_y (bullet_of (Bullet_move c r s) r) < - 10)"

text \<open>A bullet is clear when it is at its start row (it has not been animated yet) or no target
  of its column is at or below its row. The invariant says: the references of each collection
  are pairwise different, those of the bullets and explosions are in use, a target has
  positive health exactly when it is in the collection and never negative health, the rows of
  the targets are not negative, and every bullet of the collection (apart from those in \<open>X\<close>,
  for the middle of \<open>Bullet.animate\<close>) is clear.\<close>

definition bullet_clear :: "Constants \<Rightarrow> GameState \<Rightarrow> ref \<Rightarrow> bool" where
  "bullet_clear c s r \<longleftrightarrow>
     bullet_y (bullet_of s r) = SHIP_POSITION_Y c - 1
     \<or> (\<forall>e\<in>set (enemies s). enemy_x (enemy_of s e) = bullet_x (bullet_of s r)
           \<longrightarrow> of_int (enemy_y (enemy_of s e)) < bullet_y (bullet_of s r))"

definition state_inv_except :: "Constants \<Rightarrow> ref set \<Rightarrow> GameState \<Rightarrow> bool" where
  "state_inv_except c X s \<longleftrightarrow>
     distinct (enemies s) \<and> distinct (bullets s) \<and> distinct (explosions s)
     \<and> (\<forall>r\<in>set (bullets s). r < next_ref s)
     \<and> (\<forall>r\<in>set (explosions s). r < next_ref s)
     \<and> (\<forall>r. 0 \<le> health (enemy_of s r) \<and> (r \<in> set (enemies s) \<longleftrightarrow> 0 < health (enemy_of s r)))
     \<and> (\<forall>e\<in>set (enemies s). 0 \<le> enemy_y (enemy_of s e))
     \<and> (\<forall>r\<in>set (bullets s) - X. bullet_clear c s r)"

definition state_inv :: "Constants \<Rightarrow> GameState \<Rightarrow> bool" where
  "state_inv c s = state_inv_except c {} s"

text \<open>What holds while \<open>_initialize_enemies\<close> runs.\<close>

definition init_inv :: "GameState \<Rightarrow> bool" where
  "init_inv s \<longleftrightarrow>
     enemies_allocated s \<and> bullets s = [] \<and> explosions s = []
     \<and> (\<forall>r. 0 \<le> health (enemy_of s r) \<and> (r \<in> set (enemies s) \<longleftrightarrow> 0 < health (enemy_of s r)))
     \<and> (\<forall>e\<in>set (enemies s). 0 \<le> enemy_y (enemy_of s e))"

text \<open>One step of a run: a command (\<open>ship.move_to\<close>, \<open>shoot\<close>), a whole \<open>animate\<close>, or one of the
  calls \<open>animate\<close> makes on the way (\<open>Ship.animate\<close>, \<open>Bullet.animate\<close> of a bullet of the
  collection, \<open>Explosion.animate\<close> of an explosion of the collection). The reachable states
  are those that steps lead to from the constructed state; they include the states in the
  middle of an \<open>animate\<close>.\<close>

inductive step :: "Constants \<Rightarrow> GameState \<Rightarrow> GameState \<Rightarrow> bool" for c :: Constants where
  step_move_to: "step c s (s\<lparr>ship := Ship_move_to x (ship s)\<rparr>)"
| step_shoot: "step c s (GameState_shoot c s)"
| step_animate: "GameState_animate c s = Inr s' \<Longrightarrow> step c s s'"
| step_ship: "step c s (s\<lparr>ship := Ship_animate c (ship s)\<rparr>)"
| step_bullet: "r \<in> set (bullets s) \<Longrightarrow> Bullet_animate c r s = Inr s' \<Longrightarrow> step c s s'"
| step_explosion: "r \<in> set (explosions s) \<Longrightarrow> Explosion_animate r s = Inr s' \<Longrightarrow> step c s s'"

definition reachable :: "Constants \<Rightarrow> ContributionData \<Rightarrow> GameState \<Rightarrow> bool" where
  "reachable c g s = (step c)\<^sup>*\<^sup>* (GameState_init g) s"

text \<open>\<open>n\<close> calls of \<open>GameState.animate\<close> in a row, stopping at the first exception.\<close>

fun animate_n :: "Constants \<Rightarrow> nat \<Rightarrow> GameState \<Rightarrow> error + GameState" where
  "animate_n c 0 s = Inr s"
| "animate_n c (Suc n) s =
     (case GameState_animate c s of Inl e \<Rightarrow> Inl e | Inr s' \<Rightarrow> animate_n c n s')"

text \<open>More examples: a grid whose cells all have intensity 0; a grid whose only target is in
  column 25 (where the ship starts), row 6, with health 1; the state after \<open>shoot()\<close> on that
  grid, and the states 2, 3 (with a second \<open>shoot()\<close>) and 7 \<open>animate()\<close> calls later. With the
  example constants the bullet hits in the third call.\<close>

definition zero_grid :: ContributionData where
  "zero_grid = \<lparr>weeks = [\<lparr>days = [\<lparr>level = 0\<rparr>, \<lparr>level = 0\<rparr>]\<rparr>]\<rparr>"

definition hit_grid :: ContributionData where
  "hit_grid =
     \<lparr>weeks = replicate 25 \<lparr>days = []\<rparr>
        @ [\<lparr>days = replicate 6 \<lparr>level = 0\<rparr> @ [\<lparr>level = 1\<rparr>]\<rparr>]\<rparr>"

definition first_shot :: GameState where
  "first_shot = GameState_shoot example_constants (GameState_init hit_grid)"

definition before_hit :: GameState where
  "before_hit = projr (animate_n example_constants 2 first_shot)"

definition second_shot :: GameState where
  "second_shot = GameState_shoot example_constants (projr (animate_n example_constants 3 first_shot))"

definition before_expiry :: GameState where
  "before_expiry = projr (animate_n example_constants 7 first_shot)"

section \<open>Properties\<close>

subsection \<open>The ship after construction\<close>

lemma initialize_days_ship [simp]:
  "ship (initialize_days w d ds s) = ship s"
  by (induction ds arbitrary: d s) (auto simp: append_enemy_def)

lemma initialize_weeks_ship [simp]:
  "ship (initialize_weeks w ws s) = ship s"
  by (induction ws arbitrary: w s) auto

lemma GameState_init_ship:
  "ship (GameState_init g) = Ship_init"
  by (simp add: GameState_init_def GameState_initialize_enemies_def GameState_blank_def)

text \<open>
  Claim C10. For any input grid, right after construction \<open>can_take_action()\<close> is true: the
  ship starts at position 25 with target column 25, so it is not moving, and with shoot
  cooldown 0, so it can shoot.
\<close>

theorem C10_can_take_action_after_init:
  "GameState_can_take_action (GameState_init g)
   \<and> ship_x (ship (GameState_init g)) = 25
   \<and> target_x (ship (GameState_init g)) = 25
   \<and> shoot_cooldown (ship (GameState_init g)) = 0
   \<and> \<not> Ship_is_moving (ship (GameState_init g))
   \<and> Ship_can_shoot (ship (GameState_init g))"
  by (simp add: GameState_can_take_action_def GameState_init_ship Ship_init_def
        Ship_is_moving_def Ship_can_shoot_def)

subsection \<open>The loops of \<open>GameState.animate\<close>\<close>

lemma animate_enemies_id [simp]: "animate_enemies i s = s"
proof (induction i s rule: animate_enemies.induct)
  case (1 i s)
  show ?case
  proof (cases "i < length (enemies s)")
    case True
    with "1" show ?thesis
      by (subst animate_enemies.simps) (simp add: Enemy_animate_def)
  next
    case False
    then show ?thesis
      by (subst animate_enemies.simps) simp
  qed
qed

text \<open>What every round of a loop preserves, the loop preserves.\<close>

lemma animate_bullets_preserves:
  assumes "animate_bullets c i s = Inr s'"
    and "P s"
    and "\<And>r t t'. P t \<Longrightarrow> r \<in> set (bullets t) \<Longrightarrow> Bullet_animate c r t = Inr t' \<Longrightarrow> P t'"
  shows "P s'"
  using assms
proof (induction c i s rule: animate_bullets.induct)
  case (1 c i s)
  show ?case
  proof (cases "i < length (bullets s)")
    case True
    then obtain t where t: "Bullet_animate c (bullets s ! i) s = Inr t"
      and rest: "animate_bullets c (Suc i) t = Inr s'"
      using "1.prems"(1) by (subst (asm) animate_bullets.simps) (auto split: sum.splits)
    have "P t"
      using "1.prems"(3) [OF "1.prems"(2) _ t] True by simp
    then show ?thesis
      using "1.IH" [OF True t rest] "1.prems"(3) by blast
  next
    case False
    then show ?thesis
      using "1.prems"(1,2) by (subst (asm) animate_bullets.simps) simp
  qed
qed

lemma animate_explosions_preserves:
  assumes "animate_explosions i s = Inr s'"
    and "P s"
    and step: "\<And>r t t'. P t \<Longrightarrow> r \<in> set (explosions t) \<Longrightarrow> Explosion_animate r t = Inr t' \<Longrightarrow> P t'"
  shows "P s'"
  using assms(1,2)
proof (induction i s rule: animate_explosions.induct)
  case (1 i s)
  show ?case
  proof (cases "i < length (explosions s)")
    case True
    then obtain t where t: "Explosion_animate (explosions s ! i) s = Inr t"
      and rest: "animate_explosions (Suc i) t = Inr s'"
      using "1.prems"(1) by (subst (asm) animate_explosions.simps) (auto split: sum.splits)
    have "P t"
      using step [OF "1.prems"(2) _ t] True by simp
    then show ?thesis
      using "1.IH" [OF True t rest] by simp
  next
    case False
    then show ?thesis
      using "1.prems" by (subst (asm) animate_explosions.simps) simp
  qed
qed

lemma Explosion_animate_ship:
  "Explosion_animate r s = Inr s' \<Longrightarrow> ship s' = ship s"
  by (auto simp: Explosion_animate_def Let_def split: if_splits sum.splits)

lemma Enemy_take_damage_ship:
  "Enemy_take_damage r s = Inr s' \<Longrightarrow> ship s' = ship s"
  by (auto simp: Enemy_take_damage_def append_explosion_def Let_def
           split: if_splits sum.splits)

lemma Bullet_animate_ship:
  "Bullet_animate c r s = Inr s' \<Longrightarrow> ship s' = ship s"
  by (auto simp: Bullet_animate_def Bullet_move_def append_explosion_def Let_def
           split: if_splits sum.splits option.splits
           dest!: Enemy_take_damage_ship)

lemma GameState_animate_ship:
  assumes "GameState_animate c s = Inr s'"
  shows "ship s' = Ship_animate c (ship s)"
proof -
  obtain s3 where b: "animate_bullets c 0 (s\<lparr>ship := Ship_animate c (ship s)\<rparr>) = Inr s3"
    and e: "animate_explosions 0 s3 = Inr s'"
    using assms by (auto simp: GameState_animate_def Let_def split: sum.splits)
  have "ship s3 = Ship_animate c (ship s)"
    by (rule animate_bullets_preserves [OF b]) (auto dest: Bullet_animate_ship)
  then show ?thesis
    by (rule animate_explosions_preserves [OF e]) (auto dest: Explosion_animate_ship)
qed

subsection \<open>The ship approaches its target column\<close>

lemma Ship_animate_target [simp]: "target_x (Ship_animate c sh) = target_x sh"
  by (simp add: Ship_animate_def Let_def)

lemma Ship_animate_distance:
  "0 < SHIP_SPEED c \<Longrightarrow>
   ship_distance (Ship_animate c sh) = max 0 (ship_distance sh - SHIP_SPEED c)"
  by (auto simp: Ship_animate_def ship_distance_def Let_def min_def max_def)

lemma Ship_animate_funpow_target [simp]:
  "target_x ((Ship_animate c ^^ n) sh) = target_x sh"
  by (induction n) auto

lemma Ship_animate_funpow_distance:
  "0 < SHIP_SPEED c \<Longrightarrow>
   ship_distance ((Ship_animate c ^^ n) sh)
     = max 0 (ship_distance sh - of_nat n * SHIP_SPEED c)"
proof (induction n)
  case 0
  then show ?case by (simp add: ship_distance_def)
next
  case (Suc n)
  then show ?case
    by (simp add: Ship_animate_distance max_def algebra_simps)
qed

lemma Ship_animate_arrives:
  assumes "0 < SHIP_SPEED c"
  shows "\<exists>N. \<forall>n\<ge>N. ship_x ((Ship_animate c ^^ n) sh) = of_int (target_x sh)"
proof -
  obtain N :: nat where N: "ship_distance sh / SHIP_SPEED c \<le> of_nat N"
    using real_arch_simple by blast
  have "ship_distance ((Ship_animate c ^^ n) sh) = 0" if "N \<le> n" for n
  proof -
    have "ship_distance sh \<le> of_nat N * SHIP_SPEED c"
      using N assms by (simp add: pos_divide_le_eq)
    also have "\<dots> \<le> of_nat n * SHIP_SPEED c"
      using that assms by (simp add: mult_right_mono)
    finally show ?thesis
      using assms by (simp add: Ship_animate_funpow_distance)
  qed
  then show ?thesis
    by (auto simp: ship_distance_def)
qed

lemma Ship_animate_no_overshoot:
  "0 < SHIP_SPEED c \<Longrightarrow>
   (ship_x sh \<le> of_int (target_x sh) \<longrightarrow>
      ship_x sh \<le> ship_x (Ship_animate c sh)
      \<and> ship_x (Ship_animate c sh) \<le> of_int (target_x sh))
   \<and> (of_int (target_x sh) \<le> ship_x sh \<longrightarrow>
      ship_x (Ship_animate c sh) \<le> ship_x sh
      \<and> of_int (target_x sh) \<le> ship_x (Ship_animate c sh))"
  by (auto simp: Ship_animate_def Let_def min_def max_def)

text \<open>
  Claim C8. With a positive \<open>SHIP_SPEED\<close>, over successive \<open>animate\<close> calls with no
  \<open>move_to\<close> in between (the target column stays as it is), the distance from the ship to its
  target column never grows, the ship never passes the target column, and from some call on
  the ship is exactly at the target column. \<open>GameState.animate\<close> moves the ship by
  \<open>Ship.animate\<close>.
\<close>

theorem C8_ship_reaches_target:
  assumes "0 < SHIP_SPEED c"
  shows "target_x (Ship_animate c sh) = target_x sh
    \<and> ship_distance (Ship_animate c sh) \<le> ship_distance sh
    \<and> (ship_x sh \<le> of_int (target_x sh) \<longrightarrow>
          ship_x sh \<le> ship_x (Ship_animate c sh)
          \<and> ship_x (Ship_animate c sh) \<le> of_int (target_x sh))
    \<and> (of_int (target_x sh) \<le> ship_x sh \<longrightarrow>
          ship_x (Ship_animate c sh) \<le> ship_x sh
          \<and> of_int (target_x sh) \<le> ship_x (Ship_animate c sh))
    \<and> (\<exists>N. \<forall>n\<ge>N. ship_x ((Ship_animate c ^^ n) sh) = of_int (target_x sh)
                    \<and> ship_distance ((Ship_animate c ^^ n) sh) = 0)
    \<and> (\<forall>s s'. GameState_animate c s = Inr s' \<longrightarrow> ship s' = Ship_animate c (ship s))"
proof -
  have "ship_distance (Ship_animate c sh) \<le> ship_distance sh"
  proof -
    have "0 \<le> ship_distance sh"
      by (simp add: ship_distance_def)
    then show ?thesis
      using assms Ship_animate_distance [of c sh] by (simp add: max_def split: if_splits)
  qed
  moreover have "\<exists>N. \<forall>n\<ge>N. ship_x ((Ship_animate c ^^ n) sh) = of_int (target_x sh)
                    \<and> ship_distance ((Ship_animate c ^^ n) sh) = 0"
    using Ship_animate_arrives [OF assms, of sh] by (simp add: ship_distance_def)
  ultimately show ?thesis
    using Ship_animate_no_overshoot [OF assms, of sh] GameState_animate_ship
    by simp
qed

theorem C8_ship_reaches_target_witness:
  "0 < SHIP_SPEED example_constants
   \<and> ship_x (Ship_move_to 27 Ship_init) \<le> of_int (target_x (Ship_move_to 27 Ship_init))
   \<and> ship_x (Ship_animate example_constants (Ship_move_to 27 Ship_init)) = 103 / 4
   \<and> ship_x (Ship_animate example_constants (Ship_move_to 27 Ship_init)) \<le> 27
   \<and> ship_distance (Ship_animate example_constants (Ship_move_to 27 Ship_init))
       \<le> ship_distance (Ship_move_to 27 Ship_init)
   \<and> ship_x ((Ship_animate example_constants ^^ 3) (Ship_move_to 27 Ship_init)) = 27"
proof -
  have pos: "0 < SHIP_SPEED example_constants"
    by (simp add: example_constants_def)
  have run: "ship_x ((Ship_animate example_constants ^^ 3) (Ship_move_to 27 Ship_init)) = 27"
    by (simp add: numeral_3_eq_3 Ship_animate_def Ship_move_to_def Ship_init_def
          example_constants_def Let_def)
  show ?thesis
    using pos run C8_ship_reaches_target [OF pos, of "Ship_move_to 27 Ship_init"]
    by (simp add: Ship_animate_def Ship_move_to_def Ship_init_def example_constants_def
          Let_def)
qed

subsection \<open>Construction\<close>

lemma append_enemy_objects:
  "enemies_allocated s \<Longrightarrow>
   enemy_objects (append_enemy en s) = enemy_objects s @ [en]
   \<and> enemies_allocated (append_enemy en s)"
  by (auto simp: enemies_allocated_def enemy_objects_def append_enemy_def)

lemma initialize_days_objects:
  "enemies_allocated s \<Longrightarrow>
   enemy_objects (initialize_days w d ds s) = enemy_objects s @ week_targets w d ds
   \<and> enemies_allocated (initialize_days w d ds s)"
proof (induction ds arbitrary: d s)
  case Nil
  then show ?case by (simp add: week_targets_def)
next
  case (Cons day ds)
  show ?case
  proof (cases "level day \<le> 0")
    case True
    then show ?thesis
      using Cons.IH [OF Cons.prems, of "Suc d"] by (simp add: week_targets_def)
  next
    case False
    then show ?thesis
      using Cons.IH [of "append_enemy (Enemy_init (int w) (int d) (level day)) s" "Suc d"]
        append_enemy_objects [OF Cons.prems]
      by (simp add: week_targets_def)
  qed
qed

lemma initialize_weeks_objects:
  "enemies_allocated s \<Longrightarrow>
   enemy_objects (initialize_weeks w ws s) = enemy_objects s @ grid_targets_from w ws
   \<and> enemies_allocated (initialize_weeks w ws s)"
proof (induction ws arbitrary: w s)
  case Nil
  then show ?case by (simp add: grid_targets_from_def)
next
  case (Cons week ws)
  then show ?case
    using initialize_days_objects [OF Cons.prems, of w 0 "days week"]
    by (simp add: grid_targets_from_def)
qed

lemma GameState_init_objects:
  "enemy_objects (GameState_init g) = grid_targets g \<and> enemies_allocated (GameState_init g)"
  using initialize_weeks_objects [of GameState_blank 0 "weeks g"]
  by (simp add: GameState_init_def GameState_initialize_enemies_def grid_targets_def
        enemies_allocated_def enemy_objects_def GameState_blank_def)

lemma set_week_targets:
  "set (week_targets w d ds) =
     {Enemy_init (int w) (int (d + i)) (level (ds ! i)) | i. i < length ds \<and> 0 < level (ds ! i)}"
proof -
  have "\<exists>i. Enemy_init (int w) (int a) (level (ds ! (a - d))) =
             Enemy_init (int w) (int (d + i)) (level (ds ! i)) \<and> i < length ds \<and> 0 < level (ds ! i)"
    if "d \<le> a" "a < length ds + d" "0 < level (ds ! (a - d))" for a
    using that by (intro exI [of _ "a - d"]) auto
  moreover have "\<exists>a\<ge>d. a < length ds + d \<and> 0 < level (ds ! (a - d)) \<and>
             Enemy_init (int w) (int (d + i)) (level (ds ! i)) =
             Enemy_init (int w) (int a) (level (ds ! (a - d)))"
    if "i < length ds" "0 < level (ds ! i)" for i
    using that by (intro exI [of _ "d + i"]) auto
  ultimately show ?thesis
    by (auto simp: week_targets_def in_set_enumerate_eq image_iff simp del: of_nat_add)
qed

lemma length_week_targets:
  "length (week_targets w d ds) = length (filter (\<lambda>day. 0 < level day) ds)"
  unfolding week_targets_def
  by (induction ds arbitrary: d) auto

lemma length_grid_targets_from:
  "length (grid_targets_from w ws)
     = sum_list (map (\<lambda>week. length (filter (\<lambda>day. 0 < level day) (days week))) ws)"
  unfolding grid_targets_from_def
  by (induction ws arbitrary: w) (auto simp: length_week_targets)

lemma set_grid_targets_from:
  "set (grid_targets_from w ws) =
     {Enemy_init (int (w + i)) (int j) (level (days (ws ! i) ! j)) | i j.
        i < length ws \<and> j < length (days (ws ! i)) \<and> 0 < level (days (ws ! i) ! j)}"
  (is "?L = ?R")
proof (intro set_eqI iffI)
  fix e assume "e \<in> ?L"
  then obtain a where a: "w \<le> a" "a < length ws + w"
    and e: "e \<in> set (week_targets a 0 (days (ws ! (a - w))))"
    by (auto simp: grid_targets_from_def in_set_enumerate_eq)
  then obtain j where j: "j < length (days (ws ! (a - w)))"
    "0 < level (days (ws ! (a - w)) ! j)"
    "e = Enemy_init (int a) (int j) (level (days (ws ! (a - w)) ! j))"
    by (auto simp: set_week_targets)
  have "e = Enemy_init (int (w + (a - w))) (int j) (level (days (ws ! (a - w)) ! j))"
    "a - w < length ws"
    using a j(3) by auto
  then show "e \<in> ?R"
    using j(1,2) by blast
next
  fix e assume "e \<in> ?R"
  then obtain i j where ij: "i < length ws" "j < length (days (ws ! i))"
    "0 < level (days (ws ! i) ! j)"
    "e = Enemy_init (int (w + i)) (int j) (level (days (ws ! i) ! j))"
    by blast
  then have "e \<in> set (week_targets (w + i) 0 (days (ws ! i)))"
    by (auto simp: set_week_targets simp del: of_nat_add)
  moreover have "(w + i, ws ! i) \<in> set (enumerate w ws)"
    using ij(1) by (simp add: in_set_enumerate_eq)
  ultimately show "e \<in> ?L"
    unfolding grid_targets_from_def by (auto intro!: bexI [of _ "(w + i, ws ! i)"])
qed





lemma set_grid_targets:
  "set (grid_targets g) =
     {Enemy_init (int w) (int d) (level (days (weeks g ! w) ! d)) | w d.
        w < length (weeks g) \<and> d < length (days (weeks g ! w))
        \<and> 0 < level (days (weeks g ! w) ! d)}"
  using set_grid_targets_from [of 0 "weeks g"] by (simp add: grid_targets_def)


text \<open>
  Claim C3, as stated, fails: \<open>_initialize_enemies\<close> checks no intensity. On the grid of one
  week whose days have the intensities 7 and -2, construction returns a state, and that state
  holds a target of health 7.
\<close>

theorem C3_counterexample:
  "enemies (GameState_init example_grid) = [0]
   \<and> enemy_of (GameState_init example_grid) 0 = \<lparr>enemy_x = 0, enemy_y = 0, health = 7\<rparr>"
  by (simp add: example_grid_def GameState_init_def GameState_initialize_enemies_def
        GameState_blank_def append_enemy_def Enemy_init_def)

text \<open>
  Claim C3, amended. Construction accepts every intensity: a cell whose intensity is 0 or
  negative gives no target at its position (the guard \<open>level <= 0\<close> skips it), and a cell with
  any intensity above 0, also one above 4, gives a target at its position with that intensity
  as health.
\<close>

theorem C3_any_level_accepted:
  assumes "w < length (weeks g)" and "d < length (days (weeks g ! w))"
  shows "(level (days (weeks g ! w) ! d) \<le> 0 \<longrightarrow>
            \<not> (\<exists>r\<in>set (enemies (GameState_init g)).
                  enemy_x (enemy_of (GameState_init g) r) = int w
                  \<and> enemy_y (enemy_of (GameState_init g) r) = int d))
       \<and> (0 < level (days (weeks g ! w) ! d) \<longrightarrow>
            (\<exists>r\<in>set (enemies (GameState_init g)).
               enemy_of (GameState_init g) r
                 = \<lparr>enemy_x = int w, enemy_y = int d, health = level (days (weeks g ! w) ! d)\<rparr>))"
proof -
  have objs: "enemy_of (GameState_init g) ` set (enemies (GameState_init g)) = set (grid_targets g)"
    using GameState_init_objects [of g] by (simp add: enemy_objects_def flip: set_map)
  have "\<not> (\<exists>r\<in>set (enemies (GameState_init g)).
                  enemy_x (enemy_of (GameState_init g) r) = int w
                  \<and> enemy_y (enemy_of (GameState_init g) r) = int d)"
    if "level (days (weeks g ! w) ! d) \<le> 0"
  proof
    assume "\<exists>r\<in>set (enemies (GameState_init g)).
                  enemy_x (enemy_of (GameState_init g) r) = int w
                  \<and> enemy_y (enemy_of (GameState_init g) r) = int d"
    then obtain e where "e \<in> set (grid_targets g)" "enemy_x e = int w" "enemy_y e = int d"
      using objs by blast
    then show False
      using that by (auto simp: set_grid_targets Enemy_init_def)
  qed
  moreover have "\<exists>r\<in>set (enemies (GameState_init g)).
               enemy_of (GameState_init g) r
                 = \<lparr>enemy_x = int w, enemy_y = int d, health = level (days (weeks g ! w) ! d)\<rparr>"
    if "0 < level (days (weeks g ! w) ! d)"
  proof -
    have "Enemy_init (int w) (int d) (level (days (weeks g ! w) ! d)) \<in> set (grid_targets g)"
      using assms that unfolding set_grid_targets by blast
    then have "Enemy_init (int w) (int d) (level (days (weeks g ! w) ! d))
        \<in> enemy_of (GameState_init g) ` set (enemies (GameState_init g))"
      using objs by simp
    then obtain r where "r \<in> set (enemies (GameState_init g))"
      "enemy_of (GameState_init g) r = Enemy_init (int w) (int d) (level (days (weeks g ! w) ! d))"
      by auto
    then show ?thesis
      by (auto simp: Enemy_init_def)
  qed
  ultimately show ?thesis by blast
qed

theorem C3_any_level_accepted_witness:
  "(\<exists>r\<in>set (enemies (GameState_init example_grid)).
       enemy_of (GameState_init example_grid) r = \<lparr>enemy_x = 0, enemy_y = 0, health = 7\<rparr>)
   \<and> \<not> (\<exists>r\<in>set (enemies (GameState_init example_grid)).
            enemy_x (enemy_of (GameState_init example_grid) r) = 0
            \<and> enemy_y (enemy_of (GameState_init example_grid) r) = 1)"
  using C3_any_level_accepted [of 0 example_grid 0] C3_any_level_accepted [of 0 example_grid 1]
  by (simp add: example_grid_def)

subsection \<open>Commands\<close>

text \<open>
  Claim C2, as stated, fails: neither \<open>Ship.move_to\<close> nor \<open>GameState.shoot\<close> checks anything.
  \<open>move_to(-3)\<close> on the new ship makes -3 the target column, and a second \<open>shoot()\<close> right
  after a first one, while the cooldown stands at \<open>SHIP_SHOOT_COOLDOWN_FRAMES\<close> (3 in the
  example), adds a second bullet.
\<close>

theorem C2_counterexample:
  "Ship_move_to (- 3) Ship_init = \<lparr>ship_x = 25, target_x = - 3, shoot_cooldown = 0\<rparr>
   \<and> shoot_cooldown (ship (GameState_shoot example_constants (GameState_init empty_grid))) = 3
   \<and> bullets (GameState_shoot example_constants
        (GameState_shoot example_constants (GameState_init empty_grid))) = [0, 1]"
  by (simp add: Ship_move_to_def Ship_init_def GameState_shoot_def example_constants_def
        empty_grid_def GameState_init_def GameState_initialize_enemies_def GameState_blank_def)

text \<open>
  Claim C2, amended. Commands are carried out as given: \<open>move_to(x)\<close> makes \<open>x\<close> the target
  column for every integer \<open>x\<close> and leaves position and cooldown alone; \<open>shoot()\<close> appends one
  new bullet and sets the cooldown to \<open>SHIP_SHOOT_COOLDOWN_FRAMES\<close> whatever the cooldown was.
  Neither raises.
\<close>

theorem C2_commands_are_not_validated:
  "Ship_move_to x sh = \<lparr>ship_x = ship_x sh, target_x = x, shoot_cooldown = shoot_cooldown sh\<rparr>
   \<and> bullets (GameState_shoot c s) = bullets s @ [next_ref s]
   \<and> shoot_cooldown (ship (GameState_shoot c s)) = SHIP_SHOOT_COOLDOWN_FRAMES c
   \<and> enemies (GameState_shoot c s) = enemies s
   \<and> explosions (GameState_shoot c s) = explosions s"
  by (simp add: Ship_move_to_def GameState_shoot_def)

text \<open>
  Claim C4, as stated, fails: the column of the bullet is \<open>int(self.ship.x)\<close>, which cuts the
  fraction off. After \<open>move_to(27)\<close> and one \<open>animate()\<close> at speed 3/4 the ship stands at
  25.75; the nearest integer is 26, and \<open>shoot()\<close> creates the bullet in column 25.
\<close>

theorem C4_counterexample:
  "GameState_animate example_constants
       ((GameState_init empty_grid)\<lparr>ship := Ship_move_to 27 Ship_init\<rparr>) = Inr between_columns
   \<and> bullets (GameState_shoot example_constants between_columns) = [0]
   \<and> bullet_x (bullet_of (GameState_shoot example_constants between_columns) 0) = 25
   \<and> round (ship_x (ship between_columns)) = 26"
  by (simp add: between_columns_def GameState_animate_def animate_bullets.simps
        animate_explosions.simps Ship_animate_def Ship_move_to_def Ship_init_def
        GameState_shoot_def example_constants_def Bullet_init_def py_int_def round_def
        floor_eq_iff
        empty_grid_def GameState_init_def GameState_initialize_enemies_def GameState_blank_def
        Let_def)

lemma py_int_of_int: "py_int (of_int n) = n"
  by (simp add: py_int_def)

lemma py_int_bounds:
  "\<bar>of_int (py_int x) - x\<bar> < 1 \<and> \<bar>of_int (py_int x) :: rat\<bar> \<le> \<bar>x\<bar>"
proof (cases "0 \<le> x")
  case True
  then have eq: "py_int x = \<lfloor>x\<rfloor>"
    by (simp add: py_int_def)
  have "0 \<le> \<lfloor>x\<rfloor>"
    using True by simp
  then have "(0::rat) \<le> of_int \<lfloor>x\<rfloor>"
    by simp
  moreover have "of_int \<lfloor>x\<rfloor> \<le> x" "x < of_int \<lfloor>x\<rfloor> + 1"
    using floor_correct [of x] by simp_all
  ultimately show ?thesis
    unfolding eq by linarith
next
  case False
  then have eq: "py_int x = \<lceil>x\<rceil>"
    by (simp add: py_int_def)
  have "\<lceil>x\<rceil> \<le> 0"
    using False by (simp add: ceiling_le_iff)
  then have "(of_int \<lceil>x\<rceil> :: rat) \<le> 0"
    by simp
  moreover have "of_int \<lceil>x\<rceil> - 1 < x" "x \<le> of_int \<lceil>x\<rceil>"
    using ceiling_correct [of x] by simp_all
  ultimately show ?thesis
    unfolding eq using False by linarith
qed

text \<open>
  Claim C4, amended. For every ship position \<open>x\<close>, \<open>shoot()\<close> appends exactly one new bullet,
  whose column is \<open>int(x)\<close>, that is \<open>x\<close> cut off towards zero (less than 1 away from \<open>x\<close>, never
  larger in absolute value, and \<open>x\<close> itself when \<open>x\<close> is an integer), and whose row is
  \<open>SHIP_POSITION_Y - 1\<close>; the cooldown becomes \<open>SHIP_SHOOT_COOLDOWN_FRAMES\<close> and the ship stays
  where it is.
\<close>

theorem C4_shoot_truncates:
  "bullets (GameState_shoot c s) = bullets s @ [next_ref s]
   \<and> bullet_of (GameState_shoot c s) (next_ref s)
       = \<lparr>bullet_x = py_int (ship_x (ship s)), bullet_y = SHIP_POSITION_Y c - 1\<rparr>
   \<and> shoot_cooldown (ship (GameState_shoot c s)) = SHIP_SHOOT_COOLDOWN_FRAMES c
   \<and> ship_x (ship (GameState_shoot c s)) = ship_x (ship s)
   \<and> \<bar>of_int (py_int (ship_x (ship s)))\<bar> \<le> \<bar>ship_x (ship s)\<bar>
   \<and> \<bar>of_int (py_int (ship_x (ship s))) - ship_x (ship s)\<bar> < 1
   \<and> py_int (of_int n) = n"
  using py_int_bounds [of "ship_x (ship s)"]
  by (simp add: GameState_shoot_def Bullet_init_def py_int_of_int)

subsection \<open>The effect of one call\<close>

lemma Bullet_move_fields [simp]:
  "ship (Bullet_move c r s) = ship s"
  "enemies (Bullet_move c r s) = enemies s"
  "bullets (Bullet_move c r s) = bullets s"
  "explosions (Bullet_move c r s) = explosions s"
  "enemy_of (Bullet_move c r s) = enemy_of s"
  "explosion_of (Bullet_move c r s) = explosion_of s"
  "next_ref (Bullet_move c r s) = next_ref s"
  "bullet_x (bullet_of (Bullet_move c r s) b) = bullet_x (bullet_of s b)"
  "bullet_y (bullet_of (Bullet_move c r s) r) = bullet_y (bullet_of s r) - BULLET_SPEED c"
  "b \<noteq> r \<Longrightarrow> bullet_of (Bullet_move c r s) b = bullet_of s b"
  by (simp_all add: Bullet_move_def)

lemma append_explosion_fields [simp]:
  "ship (append_explosion ex s) = ship s"
  "enemies (append_explosion ex s) = enemies s"
  "bullets (append_explosion ex s) = bullets s"
  "explosions (append_explosion ex s) = explosions s @ [next_ref s]"
  "enemy_of (append_explosion ex s) = enemy_of s"
  "bullet_of (append_explosion ex s) = bullet_of s"
  "next_ref (append_explosion ex s) = Suc (next_ref s)"
  by (simp_all add: append_explosion_def)

lemma Explosion_animate_effect:
  assumes "Explosion_animate r s = Inr s'"
  shows "ship s' = ship s \<and> enemies s' = enemies s \<and> bullets s' = bullets s
    \<and> enemy_of s' = enemy_of s \<and> bullet_of s' = bullet_of s \<and> next_ref s' = next_ref s
    \<and> explosion_of s' = (explosion_of s)
          (r := (explosion_of s r)\<lparr>frame := frame (explosion_of s r) + 1\<rparr>)
    \<and> (if max_frames (explosion_of s r) \<le> frame (explosion_of s r) + 1
        then r \<in> set (explosions s) \<and> explosions s' = remove1 r (explosions s)
        else explosions s' = explosions s)"
  using assms
  by (auto simp: Explosion_animate_def list_remove_def Let_def split: if_splits)

lemma Enemy_take_damage_effect:
  assumes "Enemy_take_damage e s = Inr s'"
  shows "ship s' = ship s \<and> bullets s' = bullets s \<and> bullet_of s' = bullet_of s
    \<and> enemy_of s' = (enemy_of s)(e := (enemy_of s e)\<lparr>health := health (enemy_of s e) - 1\<rparr>)
    \<and> (if health (enemy_of s e) - 1 \<le> 0
        then e \<in> set (enemies s) \<and> enemies s' = remove1 e (enemies s)
           \<and> explosions s' = explosions s @ [next_ref s]
           \<and> next_ref s' = Suc (next_ref s)
           \<and> explosion_of s' = (explosion_of s)
                (next_ref s := Explosion_init (of_int (enemy_x (enemy_of s e)))
                                 (of_int (enemy_y (enemy_of s e))) ''large'' (57, 211, 83))
        else enemies s' = enemies s \<and> explosions s' = explosions s
           \<and> next_ref s' = next_ref s \<and> explosion_of s' = explosion_of s)"
  using assms
  by (auto simp: Enemy_take_damage_def append_explosion_def list_remove_def Let_def
           split: if_splits)

lemma Enemy_take_damage_total:
  "e \<in> set (enemies s) \<Longrightarrow> \<exists>s'. Enemy_take_damage e s = Inr s'"
  by (auto simp: Enemy_take_damage_def append_explosion_def list_remove_def Let_def)

lemma Bullet_animate_effect:
  assumes "Bullet_animate c r s = Inr s'"
  shows "(\<not> hit_branch c r s
          \<and> (if exit_branch c r s
              then r \<in> set (bullets s)
                 \<and> s' = (Bullet_move c r s)\<lparr>bullets := remove1 r (bullets s)\<rparr>
              else s' = Bullet_move c r s))
       \<or> (\<exists>e s3. Bullet_check_collision r (Bullet_move c r s) = Some e
            \<and> Enemy_take_damage e
                (append_explosion
                   (Explosion_init (of_int (bullet_x (bullet_of s r)))
                      (bullet_y (bullet_of s r) - BULLET_SPEED c) ''small'' (255, 223, 0))
                   (Bullet_move c r s)) = Inr s3
            \<and> r \<in> set (bullets s)
            \<and> (if exit_branch c r s
                then r \<in> set (remove1 r (bullets s))
                   \<and> s' = s3\<lparr>bullets := remove1 r (remove1 r (bullets s))\<rparr>
                else s' = s3\<lparr>bullets := remove1 r (bullets s)\<rparr>))"
proof (cases "Bullet_check_collision r (Bullet_move c r s)")
  case None
  then show ?thesis
    using assms
    by (auto simp: Bullet_animate_def hit_branch_def exit_branch_def list_remove_def Let_def
             split: if_splits)
next
  case (Some e)
  let ?s2 = "append_explosion
                   (Explosion_init (of_int (bullet_x (bullet_of s r)))
                      (bullet_y (bullet_of s r) - BULLET_SPEED c) ''small'' (255, 223, 0))
                   (Bullet_move c r s)"
  have s2: "append_explosion
              (Explosion_init (of_int (bullet_x (bullet_of (Bullet_move c r s) r)))
                 (bullet_y (bullet_of (Bullet_move c r s) r)) ''small'' (255, 223, 0))
              (Bullet_move c r s) = ?s2"
    by (simp add: Bullet_move_def)
  obtain s3 where s3: "Enemy_take_damage e ?s2 = Inr s3"
    using assms Some unfolding Bullet_animate_def Let_def s2
    by (auto split: sum.splits)
  have same: "bullets s3 = bullets s" "bullet_of s3 = bullet_of (Bullet_move c r s)"
    using Enemy_take_damage_effect [OF s3]
    by (simp_all add: append_explosion_def Bullet_move_def)
  show ?thesis
    using assms Some s3 same unfolding Bullet_animate_def Let_def s2
    by (auto simp: exit_branch_def list_remove_def split: if_splits)
qed

subsection \<open>The invariant holds after construction\<close>

lemma append_enemy_init_inv:
  "init_inv s \<Longrightarrow> 0 < h \<Longrightarrow> init_inv (append_enemy (Enemy_init w (int d) h) s)"
  unfolding init_inv_def enemies_allocated_def append_enemy_def Enemy_init_def
  by (auto simp: less_Suc_eq)

lemma initialize_days_init_inv:
  "init_inv s \<Longrightarrow> init_inv (initialize_days w d ds s)"
proof (induction ds arbitrary: d s)
  case Nil
  then show ?case by simp
next
  case (Cons day ds)
  then show ?case
    by (simp add: append_enemy_init_inv)
qed

lemma initialize_weeks_init_inv:
  "init_inv s \<Longrightarrow> init_inv (initialize_weeks w ws s)"
  by (induction ws arbitrary: w s) (simp_all add: initialize_days_init_inv)

lemma GameState_init_init_inv: "init_inv (GameState_init g)"
proof -
  have "init_inv GameState_blank"
    by (simp add: init_inv_def enemies_allocated_def GameState_blank_def Enemy_init_def)
  then show ?thesis
    by (simp add: GameState_init_def GameState_initialize_enemies_def initialize_weeks_init_inv)
qed

lemma state_inv_init: "state_inv c (GameState_init g)"
  using GameState_init_init_inv [of g]
  by (simp add: state_inv_def state_inv_except_def init_inv_def enemies_allocated_def)

subsection \<open>Every step keeps the invariant\<close>

lemma state_inv_ship_update:
  "state_inv_except c X s \<Longrightarrow> state_inv_except c X (s\<lparr>ship := sh\<rparr>)"
  by (simp add: state_inv_except_def bullet_clear_def)

lemma state_inv_shoot:
  assumes "state_inv c s"
  shows "state_inv c (GameState_shoot c s)"
proof -
  have "bullet_clear c (GameState_shoot c s) r"
    if "r \<in> set (bullets s) \<or> r = next_ref s" for r
  proof (cases "r = next_ref s")
    case True
    then show ?thesis
      by (simp add: bullet_clear_def GameState_shoot_def Bullet_init_def)
  next
    case False
    then have "r \<in> set (bullets s)" using that by simp
    then have "bullet_clear c s r"
      using assms by (simp add: state_inv_def state_inv_except_def)
    then show ?thesis
      using False by (simp add: bullet_clear_def GameState_shoot_def)
  qed
  then show ?thesis
    using assms unfolding state_inv_def state_inv_except_def
    by (auto simp: GameState_shoot_def less_Suc_eq)
qed

lemma state_inv_except_Explosion_animate:
  assumes "Explosion_animate r s = Inr s'" and "state_inv_except c X s"
  shows "state_inv_except c X s'"
proof -
  note eff = Explosion_animate_effect [OF assms(1)]
  have "set (explosions s') \<subseteq> set (explosions s)" "distinct (explosions s')"
    using eff assms(2) by (auto simp: state_inv_except_def split: if_splits)
  then show ?thesis
    using eff assms(2) unfolding state_inv_except_def bullet_clear_def
    by auto
qed

lemma state_inv_except_append_explosion:
  assumes "state_inv_except c X s"
  shows "state_inv_except c X (append_explosion ex s)"
  using assms unfolding state_inv_except_def bullet_clear_def
  by (auto simp: less_Suc_eq)

lemma state_inv_except_take_damage:
  assumes "Enemy_take_damage e s = Inr s'" and "state_inv_except c X s"
    and "e \<in> set (enemies s)"
  shows "state_inv_except c X s'"
proof -
  note eff = Enemy_take_damage_effect [OF assms(1)]
  have inv: "distinct (enemies s)" "distinct (bullets s)" "distinct (explosions s)"
    "\<forall>r\<in>set (bullets s). r < next_ref s" "\<forall>r\<in>set (explosions s). r < next_ref s"
    "\<forall>r. 0 \<le> health (enemy_of s r) \<and> (r \<in> set (enemies s) \<longleftrightarrow> 0 < health (enemy_of s r))"
    "\<forall>e\<in>set (enemies s). 0 \<le> enemy_y (enemy_of s e)"
    "\<forall>r\<in>set (bullets s) - X. bullet_clear c s r"
    using assms(2) by (simp_all add: state_inv_except_def)
  have sub: "set (enemies s') \<subseteq> set (enemies s)"
    using eff set_remove1_subset [of e "enemies s"] by (auto split: if_splits)
  have pos: "enemy_x (enemy_of s' r) = enemy_x (enemy_of s r)"
    "enemy_y (enemy_of s' r) = enemy_y (enemy_of s r)" for r
    using eff by auto
  have h_e: "1 \<le> health (enemy_of s e)"
    using inv(6) assms(3) by (simp add: order_less_le) (metis int_one_le_iff_zero_less less_le)
  have 1: "distinct (enemies s')"
    using eff inv(1) by (auto split: if_splits)
  have 2: "distinct (bullets s')" "\<forall>r\<in>set (bullets s'). r < next_ref s'"
    using eff inv(2,4) by (auto split: if_splits simp: less_Suc_eq)
  have 3: "distinct (explosions s')" "\<forall>r\<in>set (explosions s'). r < next_ref s'"
    using eff inv(3,5) by (auto split: if_splits simp: less_Suc_eq)
  have 4: "0 \<le> health (enemy_of s' r) \<and> (r \<in> set (enemies s') \<longleftrightarrow> 0 < health (enemy_of s' r))"
    for r
  proof (cases "r = e")
    case True
    then show ?thesis
      using eff h_e inv(1) assms(3) by (auto split: if_splits)
  next
    case False
    then show ?thesis
      using eff inv(6) by (auto split: if_splits)
  qed
  have 5: "\<forall>e\<in>set (enemies s'). 0 \<le> enemy_y (enemy_of s' e)"
    using sub inv(7) pos by auto
  have 6: "bullet_clear c s' r" if "r \<in> set (bullets s') - X" for r
  proof -
    have "bullet_clear c s r"
      using that eff inv(8) by auto
    then show ?thesis
      unfolding bullet_clear_def using sub pos eff by auto
  qed
  show ?thesis
    unfolding state_inv_except_def using 1 2 3 4 5 6 by blast
qed

lemma state_inv_except_Bullet_move:
  assumes "state_inv_except c X s"
  shows "state_inv_except c (insert r X) (Bullet_move c r s)"
proof -
  have "bullet_clear c (Bullet_move c r s) b" if "bullet_clear c s b" "b \<noteq> r" for b
    using that by (simp add: bullet_clear_def)
  then show ?thesis
    using assms unfolding state_inv_except_def by auto
qed

lemma state_inv_except_remove_bullet:
  assumes "state_inv_except c {r} s"
  shows "state_inv c (s\<lparr>bullets := remove1 r (bullets s)\<rparr>)"
proof -
  have d: "distinct (bullets s)"
    using assms by (simp add: state_inv_except_def)
  then have "set (remove1 r (bullets s)) = set (bullets s) - {r}"
    by simp
  moreover have "bullet_clear c (s\<lparr>bullets := bs\<rparr>) b = bullet_clear c s b" for bs b
    by (simp add: bullet_clear_def)
  ultimately show ?thesis
    using assms d unfolding state_inv_def state_inv_except_def by auto
qed

lemma state_inv_except_complete:
  assumes "state_inv_except c {r} s" and "bullet_clear c s r"
  shows "state_inv c s"
  using assms unfolding state_inv_def state_inv_except_def by auto

lemma no_hit_bullet_clear:
  assumes "\<not> hit_branch c r s"
  shows "bullet_clear c (Bullet_move c r s) r"
  using assms
  by (auto simp: hit_branch_def Bullet_check_collision_def bullet_clear_def find_None_iff
        not_le)

lemma hit_enemy:
  assumes "Bullet_check_collision r s = Some e"
  shows "e \<in> set (enemies s)
    \<and> enemy_x (enemy_of s e) = bullet_x (bullet_of s r)
    \<and> bullet_y (bullet_of s r) \<le> of_int (enemy_y (enemy_of s e))"
  using assms
  by (auto simp: Bullet_check_collision_def find_Some_iff)

lemma state_inv_Bullet_animate:
  assumes "Bullet_animate c r s = Inr s'" and "state_inv c s"
  shows "state_inv c s'"
proof -
  let ?s1 = "Bullet_move c r s"
  have s1: "state_inv_except c {r} ?s1"
    using state_inv_except_Bullet_move [of c "{}" s r] assms(2) by (simp add: state_inv_def)
  from Bullet_animate_effect [OF assms(1)] show ?thesis
  proof (elim disjE conjE exE)
    assume nh: "\<not> hit_branch c r s"
      and rest: "if exit_branch c r s
         then r \<in> set (bullets s) \<and> s' = ?s1\<lparr>bullets := remove1 r (bullets s)\<rparr>
         else s' = ?s1"
    show ?thesis
    proof (cases "exit_branch c r s")
      case True
      then have "s' = ?s1\<lparr>bullets := remove1 r (bullets ?s1)\<rparr>"
        using rest by simp
      then show ?thesis
        using state_inv_except_remove_bullet [OF s1] by simp
    next
      case False
      then have "s' = ?s1" using rest by simp
      then show ?thesis
        using state_inv_except_complete [OF s1 no_hit_bullet_clear [OF nh]] by simp
    qed
  next
    fix e s3
    let ?s2 = "append_explosion
                   (Explosion_init (of_int (bullet_x (bullet_of s r)))
                      (bullet_y (bullet_of s r) - BULLET_SPEED c) ''small'' (255, 223, 0)) ?s1"
    assume hit: "Bullet_check_collision r ?s1 = Some e"
      and dmg: "Enemy_take_damage e ?s2 = Inr s3"
      and r: "r \<in> set (bullets s)"
      and rest: "if exit_branch c r s
         then r \<in> set (remove1 r (bullets s))
            \<and> s' = s3\<lparr>bullets := remove1 r (remove1 r (bullets s))\<rparr>
         else s' = s3\<lparr>bullets := remove1 r (bullets s)\<rparr>"
    have d: "distinct (bullets s)"
      using assms(2) by (simp add: state_inv_def state_inv_except_def)
    then have "r \<notin> set (remove1 r (bullets s))"
      by simp
    then have s': "s' = s3\<lparr>bullets := remove1 r (bullets s)\<rparr>"
      using rest by (auto split: if_splits)
    have "e \<in> set (enemies ?s2)"
      using hit_enemy [OF hit] by simp
    then have s3: "state_inv_except c {r} s3"
      using state_inv_except_take_damage [OF dmg state_inv_except_append_explosion [OF s1]]
      by simp
    have "bullets s3 = bullets s"
      using Enemy_take_damage_effect [OF dmg] by simp
    then show ?thesis
      using state_inv_except_remove_bullet [OF s3] s' by simp
  qed
qed

lemma hit_and_exit_exclusive:
  assumes "state_inv c s" and "r \<in> set (bullets s)"
    and "BULLET_SPEED c \<le> 10" and "BULLET_SPEED c \<le> SHIP_POSITION_Y c + 9"
  shows "\<not> (hit_branch c r s \<and> exit_branch c r s)"
proof
  assume both: "hit_branch c r s \<and> exit_branch c r s"
  then obtain e where e: "Bullet_check_collision r (Bullet_move c r s) = Some e"
    by (auto simp: hit_branch_def)
  have ex: "bullet_y (bullet_of s r) - BULLET_SPEED c < - 10"
    using both by (simp add: exit_branch_def)
  have hit: "e \<in> set (enemies s)" "enemy_x (enemy_of s e) = bullet_x (bullet_of s r)"
    "bullet_y (bullet_of s r) - BULLET_SPEED c \<le> of_int (enemy_y (enemy_of s e))"
    using hit_enemy [OF e] by simp_all
  have y0: "(0::rat) \<le> of_int (enemy_y (enemy_of s e))"
    using assms(1) hit(1) by (simp add: state_inv_def state_inv_except_def)
  have "bullet_clear c s r"
    using assms(1,2) by (simp add: state_inv_def state_inv_except_def)
  then consider "bullet_y (bullet_of s r) = SHIP_POSITION_Y c - 1"
    | "of_int (enemy_y (enemy_of s e)) < bullet_y (bullet_of s r)"
    using hit(1,2) by (auto simp: bullet_clear_def)
  then show False
  proof cases
    case 1
    then show ?thesis using ex assms(4) by simp
  next
    case 2
    then show ?thesis using ex y0 assms(3) by simp
  qed
qed

lemma Bullet_animate_total:
  assumes "state_inv c s" and "r \<in> set (bullets s)"
    and "BULLET_SPEED c \<le> 10" and "BULLET_SPEED c \<le> SHIP_POSITION_Y c + 9"
  shows "\<exists>s'. Bullet_animate c r s = Inr s'"
proof (cases "Bullet_check_collision r (Bullet_move c r s)")
  case None
  then show ?thesis
    using assms(2) by (simp add: Bullet_animate_def list_remove_def Let_def)
next
  case (Some e)
  let ?s2 = "append_explosion
                (Explosion_init (of_int (bullet_x (bullet_of (Bullet_move c r s) r)))
                   (bullet_y (bullet_of (Bullet_move c r s) r)) ''small'' (255, 223, 0))
                (Bullet_move c r s)"
  have "e \<in> set (enemies ?s2)"
    using hit_enemy [OF Some] by simp
  then obtain s3 where s3: "Enemy_take_damage e ?s2 = Inr s3"
    using Enemy_take_damage_total by blast
  have same: "bullets s3 = bullets s" "bullet_of s3 = bullet_of (Bullet_move c r s)"
    using Enemy_take_damage_effect [OF s3] by simp_all
  have "\<not> exit_branch c r s"
    using hit_and_exit_exclusive [OF assms] Some by (simp add: hit_branch_def)
  then show ?thesis
    using Some s3 same assms(2)
    by (simp add: Bullet_animate_def list_remove_def Let_def exit_branch_def)
qed

lemma Explosion_animate_total:
  "r \<in> set (explosions s) \<Longrightarrow> \<exists>s'. Explosion_animate r s = Inr s'"
  by (simp add: Explosion_animate_def list_remove_def Let_def)

lemma animate_explosions_total: "\<exists>s'. animate_explosions i s = Inr s'"
proof (induction i s rule: animate_explosions.induct)
  case (1 i s)
  show ?case
  proof (cases "i < length (explosions s)")
    case True
    then obtain t where t: "Explosion_animate (explosions s ! i) s = Inr t"
      using Explosion_animate_total [of "explosions s ! i" s] by auto
    then show ?thesis
      using "1.IH" [OF True t] True by (subst animate_explosions.simps) simp
  next
    case False
    then show ?thesis
      by (subst animate_explosions.simps) simp
  qed
qed

lemma animate_bullets_total:
  assumes "state_inv c s"
    and "BULLET_SPEED c \<le> 10" and "BULLET_SPEED c \<le> SHIP_POSITION_Y c + 9"
  shows "\<exists>s'. animate_bullets c i s = Inr s'"
  using assms
proof (induction c i s rule: animate_bullets.induct)
  case (1 c i s)
  show ?case
  proof (cases "i < length (bullets s)")
    case True
    then obtain t where t: "Bullet_animate c (bullets s ! i) s = Inr t"
      using Bullet_animate_total [OF "1.prems"(1) _ "1.prems"(2,3), of "bullets s ! i"] by auto
    have "state_inv c t"
      using state_inv_Bullet_animate [OF t "1.prems"(1)] .
    then show ?thesis
      using "1.IH" [OF True t _ "1.prems"(2,3)] True t
      by (subst animate_bullets.simps) simp
  next
    case False
    then show ?thesis
      by (subst animate_bullets.simps) simp
  qed
qed

lemma state_inv_GameState_animate:
  assumes "GameState_animate c s = Inr s'" and "state_inv c s"
  shows "state_inv c s'"
proof -
  obtain s3 where b: "animate_bullets c 0 (s\<lparr>ship := Ship_animate c (ship s)\<rparr>) = Inr s3"
    and e: "animate_explosions 0 s3 = Inr s'"
    using assms(1) by (auto simp: GameState_animate_def Let_def split: sum.splits)
  have "state_inv c (s\<lparr>ship := Ship_animate c (ship s)\<rparr>)"
    using assms(2) state_inv_ship_update by (simp add: state_inv_def)
  then have "state_inv c s3"
    by (rule animate_bullets_preserves [OF b]) (rule state_inv_Bullet_animate)
  then show ?thesis
    by (rule animate_explosions_preserves [OF e])
       (auto simp: state_inv_def intro: state_inv_except_Explosion_animate)
qed

lemma GameState_animate_total:
  assumes "state_inv c s"
    and "BULLET_SPEED c \<le> 10" and "BULLET_SPEED c \<le> SHIP_POSITION_Y c + 9"
  shows "\<exists>s'. GameState_animate c s = Inr s'"
proof -
  have "state_inv c (s\<lparr>ship := Ship_animate c (ship s)\<rparr>)"
    using assms(1) state_inv_ship_update by (simp add: state_inv_def)
  then obtain s3 where "animate_bullets c 0 (s\<lparr>ship := Ship_animate c (ship s)\<rparr>) = Inr s3"
    using animate_bullets_total [OF _ assms(2,3)] by blast
  then show ?thesis
    using animate_explosions_total [of 0 s3] by (simp add: GameState_animate_def Let_def)
qed

lemma state_inv_step:
  assumes "step c s s'" and "state_inv c s"
  shows "state_inv c s'"
  using assms
proof cases
  case (step_move_to x)
  then show ?thesis using assms(2) state_inv_ship_update by (simp add: state_inv_def)
next
  case step_shoot
  then show ?thesis using assms(2) state_inv_shoot by simp
next
  case step_animate
  then show ?thesis using assms(2) state_inv_GameState_animate by simp
next
  case step_ship
  then show ?thesis using assms(2) state_inv_ship_update by (simp add: state_inv_def)
next
  case (step_bullet r)
  then show ?thesis using assms(2) state_inv_Bullet_animate by simp
next
  case (step_explosion r)
  then show ?thesis
    using assms(2) state_inv_except_Explosion_animate by (simp add: state_inv_def)
qed

lemma state_inv_steps:
  assumes "(step c)\<^sup>*\<^sup>* s s'" and "state_inv c s"
  shows "state_inv c s'"
  using assms by (induction rule: rtranclp_induct) (auto intro: state_inv_step)

lemma reachable_state_inv:
  "reachable c g s \<Longrightarrow> state_inv c s"
  unfolding reachable_def using state_inv_steps state_inv_init by blast

subsection \<open>Reachable example states\<close>

lemma reachable_init: "reachable c g (GameState_init g)"
  by (simp add: reachable_def)

lemma reachable_step: "reachable c g s \<Longrightarrow> step c s s' \<Longrightarrow> reachable c g s'"
  unfolding reachable_def by (rule rtranclp.rtrancl_into_rtrancl)

lemma animate_n_steps:
  "animate_n c n s = Inr s' \<Longrightarrow> (step c)\<^sup>*\<^sup>* s s'"
proof (induction n arbitrary: s)
  case 0
  then show ?case by simp
next
  case (Suc n)
  then obtain t where t: "GameState_animate c s = Inr t" and rest: "animate_n c n t = Inr s'"
    by (auto split: sum.splits)
  show ?case
    using step_animate [OF t] Suc.IH [OF rest] by (rule converse_rtranclp_into_rtranclp)
qed

lemma reachable_animate_n:
  "reachable c g s \<Longrightarrow> animate_n c n s = Inr s' \<Longrightarrow> reachable c g s'"
  unfolding reachable_def using animate_n_steps [of c n s s'] by simp

lemma first_shot_reachable: "reachable example_constants hit_grid first_shot"
  unfolding first_shot_def by (rule reachable_step [OF reachable_init step_shoot])

lemma before_hit_reachable: "reachable example_constants hit_grid before_hit"
proof -
  have "\<not> isl (animate_n example_constants 2 first_shot)"
    by code_simp
  then have "animate_n example_constants 2 first_shot = Inr before_hit"
    by (simp add: before_hit_def sum.expand)
  then show ?thesis
    by (rule reachable_animate_n [OF first_shot_reachable])
qed

lemma second_shot_reachable: "reachable example_constants hit_grid second_shot"
proof -
  have "\<not> isl (animate_n example_constants 3 first_shot)"
    by code_simp
  then have "animate_n example_constants 3 first_shot
      = Inr (projr (animate_n example_constants 3 first_shot))"
    by (simp add: sum.expand)
  then have "(step example_constants)\<^sup>*\<^sup>* first_shot
      (projr (animate_n example_constants 3 first_shot))"
    by (rule animate_n_steps)
  moreover have "step example_constants (GameState_init hit_grid) first_shot"
    unfolding first_shot_def by (rule step_shoot)
  moreover have "step example_constants (projr (animate_n example_constants 3 first_shot))
      second_shot"
    unfolding second_shot_def by (rule step_shoot)
  ultimately show ?thesis
    unfolding reachable_def by (meson converse_rtranclp_into_rtranclp rtranclp.rtrancl_into_rtrancl)
qed

lemma before_expiry_reachable: "reachable example_constants hit_grid before_expiry"
proof -
  have "\<not> isl (animate_n example_constants 7 first_shot)"
    by code_simp
  then have "animate_n example_constants 7 first_shot = Inr before_expiry"
    by (simp add: before_expiry_def sum.expand)
  then show ?thesis
    by (rule reachable_animate_n [OF first_shot_reachable])
qed

subsection \<open>Targets and their health\<close>

lemma Bullet_animate_enemies:
  assumes "Bullet_animate c r s = Inr s'"
  shows "set (enemies s') \<subseteq> set (enemies s)
    \<and> (\<forall>e. health (enemy_of s' e) \<le> health (enemy_of s e))
    \<and> (case Bullet_check_collision r (Bullet_move c r s) of
          None \<Rightarrow> enemy_of s' = enemy_of s \<and> enemies s' = enemies s
        | Some e \<Rightarrow> enemy_of s' =
            (enemy_of s)(e := (enemy_of s e)\<lparr>health := health (enemy_of s e) - 1\<rparr>))"
  using Bullet_animate_effect [OF assms]
proof (elim disjE conjE exE)
  assume "\<not> hit_branch c r s"
    and "if exit_branch c r s
         then r \<in> set (bullets s) \<and> s' = Bullet_move c r s\<lparr>bullets := remove1 r (bullets s)\<rparr>
         else s' = Bullet_move c r s"
  then show ?thesis
    by (auto simp: hit_branch_def split: if_splits)
next
  fix e s3
  assume hit: "Bullet_check_collision r (Bullet_move c r s) = Some e"
    and dmg: "Enemy_take_damage e
                (append_explosion
                   (Explosion_init (of_int (bullet_x (bullet_of s r)))
                      (bullet_y (bullet_of s r) - BULLET_SPEED c) ''small'' (255, 223, 0))
                   (Bullet_move c r s)) = Inr s3"
    and rest: "if exit_branch c r s
         then r \<in> set (remove1 r (bullets s))
            \<and> s' = s3\<lparr>bullets := remove1 r (remove1 r (bullets s))\<rparr>
         else s' = s3\<lparr>bullets := remove1 r (bullets s)\<rparr>"
  have en: "enemies s' = enemies s3" "enemy_of s' = enemy_of s3"
    using rest by (auto split: if_splits)
  have "set (enemies s3) \<subseteq> set (enemies s)"
    using Enemy_take_damage_effect [OF dmg] set_remove1_subset [of e "enemies s"]
    by (auto split: if_splits)
  moreover have "enemy_of s3 =
      (enemy_of s)(e := (enemy_of s e)\<lparr>health := health (enemy_of s e) - 1\<rparr>)"
    using Enemy_take_damage_effect [OF dmg] by simp
  ultimately show ?thesis
    using en hit by auto
qed

lemma step_enemies:
  assumes "step c s s'"
  shows "set (enemies s') \<subseteq> set (enemies s)
    \<and> (\<forall>e. health (enemy_of s' e) \<le> health (enemy_of s e))"
  using assms
proof cases
  case (step_move_to x)
  then show ?thesis by simp
next
  case step_shoot
  then show ?thesis by (simp add: GameState_shoot_def)
next
  case step_animate
  then obtain s3 where b: "animate_bullets c 0 (s\<lparr>ship := Ship_animate c (ship s)\<rparr>) = Inr s3"
    and e: "animate_explosions 0 s3 = Inr s'"
    by (auto simp: GameState_animate_def Let_def split: sum.splits)
  let ?P = "\<lambda>t. set (enemies t) \<subseteq> set (enemies s)
    \<and> (\<forall>e. health (enemy_of t e) \<le> health (enemy_of s e))"
  have "?P (s\<lparr>ship := Ship_animate c (ship s)\<rparr>)"
    by simp
  then have "?P s3"
  proof (rule animate_bullets_preserves [OF b])
    fix r t t'
    assume "?P t" and "Bullet_animate c r t = Inr t'"
    then show "?P t'"
      using Bullet_animate_enemies [of c r t t'] by (meson order_trans)
  qed
  then show ?thesis
  proof (rule animate_explosions_preserves [OF e])
    fix r t t'
    assume "?P t" and "Explosion_animate r t = Inr t'"
    then show "?P t'"
      using Explosion_animate_effect [of r t t'] by simp
  qed
next
  case step_ship
  then show ?thesis by simp
next
  case (step_bullet r)
  then show ?thesis using Bullet_animate_enemies [of c r s s'] by simp
next
  case (step_explosion r)
  then show ?thesis using Explosion_animate_effect [of r s s'] by simp
qed

lemma steps_enemies:
  assumes "(step c)\<^sup>*\<^sup>* s s'"
  shows "set (enemies s') \<subseteq> set (enemies s)
    \<and> (\<forall>e. health (enemy_of s' e) \<le> health (enemy_of s e))"
  using assms
proof (induction rule: rtranclp_induct)
  case base
  then show ?case by simp
next
  case (step t u)
  then show ?case
    using step_enemies [of c t u] by (meson order_trans)
qed

lemma take_damage_in_reachable:
  assumes "state_inv c s" and "r \<in> set (enemies s)"
  shows "\<exists>s'. Enemy_take_damage r s = Inr s'
     \<and> health (enemy_of s' r) = health (enemy_of s r) - 1
     \<and> 0 \<le> health (enemy_of s' r)
     \<and> (r \<in> set (enemies s') \<longleftrightarrow> 0 < health (enemy_of s' r))
     \<and> (\<forall>r'. r' \<noteq> r \<longrightarrow> enemy_of s' r' = enemy_of s r'
              \<and> (r' \<in> set (enemies s') \<longleftrightarrow> r' \<in> set (enemies s)))"
proof -
  obtain s' where s': "Enemy_take_damage r s = Inr s'"
    using Enemy_take_damage_total [OF assms(2)] by blast
  have inv: "state_inv_except c {} s'"
    using state_inv_except_take_damage [OF s' _ assms(2)] assms(1) by (simp add: state_inv_def)
  have "health (enemy_of s' r) = health (enemy_of s r) - 1"
    "\<forall>r'. r' \<noteq> r \<longrightarrow> enemy_of s' r' = enemy_of s r'"
    using Enemy_take_damage_effect [OF s'] by simp_all
  moreover have "\<forall>r'. r' \<noteq> r \<longrightarrow> (r' \<in> set (enemies s') \<longleftrightarrow> r' \<in> set (enemies s))"
    using Enemy_take_damage_effect [OF s'] by (auto split: if_splits)
  moreover have "0 \<le> health (enemy_of s' r)"
    "r \<in> set (enemies s') \<longleftrightarrow> 0 < health (enemy_of s' r)"
    using inv by (simp_all add: state_inv_except_def)
  ultimately show ?thesis
    using s' by auto
qed

text \<open>
  Claim C5. In every reachable state, for every target created at construction: its health
  is not negative and not above its initial health, and the target is in the collection
  exactly when its health is positive; the collection holds no other target. \<open>take_damage\<close> on
  a target of the collection lowers its health by exactly 1, leaves the other targets alone
  and removes it in the same call exactly when its health reaches 0. No step raises the health
  of a target, and after every step membership and positive health still agree. A bullet
  that hits lowers the health of the target it hits by exactly 1 and that of no other; a
  bullet that does not hit changes no target.
\<close>

theorem C5_target_health:
  assumes "reachable c g s"
  shows "set (enemies s) \<subseteq> set (enemies (GameState_init g))
    \<and> (\<forall>r\<in>set (enemies (GameState_init g)).
          0 \<le> health (enemy_of s r)
          \<and> health (enemy_of s r) \<le> health (enemy_of (GameState_init g) r)
          \<and> (r \<in> set (enemies s) \<longleftrightarrow> 0 < health (enemy_of s r)))
    \<and> (\<forall>r\<in>set (enemies s). \<exists>s'. Enemy_take_damage r s = Inr s'
          \<and> health (enemy_of s' r) = health (enemy_of s r) - 1
          \<and> 0 \<le> health (enemy_of s' r)
          \<and> (r \<in> set (enemies s') \<longleftrightarrow> 0 < health (enemy_of s' r))
          \<and> (\<forall>r'. r' \<noteq> r \<longrightarrow> enemy_of s' r' = enemy_of s r'
                \<and> (r' \<in> set (enemies s') \<longleftrightarrow> r' \<in> set (enemies s))))
    \<and> (\<forall>s'. step c s s' \<longrightarrow>
          (\<forall>r. health (enemy_of s' r) \<le> health (enemy_of s r)
               \<and> (r \<in> set (enemies s') \<longleftrightarrow> 0 < health (enemy_of s' r))))
    \<and> (\<forall>b\<in>set (bullets s). \<forall>s'. Bullet_animate c b s = Inr s' \<longrightarrow>
          (case Bullet_check_collision b (Bullet_move c b s) of
             None \<Rightarrow> enemy_of s' = enemy_of s \<and> enemies s' = enemies s
           | Some e \<Rightarrow> health (enemy_of s' e) = health (enemy_of s e) - 1
               \<and> (\<forall>r. r \<noteq> e \<longrightarrow> enemy_of s' r = enemy_of s r)))"
proof -
  have inv: "state_inv c s"
    using assms by (rule reachable_state_inv)
  have 1: "set (enemies s) \<subseteq> set (enemies (GameState_init g))"
    "\<forall>r. health (enemy_of s r) \<le> health (enemy_of (GameState_init g) r)"
    using steps_enemies [of c "GameState_init g" s] assms by (simp_all add: reachable_def)
  have 2: "\<forall>r. 0 \<le> health (enemy_of s r) \<and> (r \<in> set (enemies s) \<longleftrightarrow> 0 < health (enemy_of s r))"
    using inv by (simp add: state_inv_def state_inv_except_def)
  have 3: "\<forall>r. health (enemy_of s' r) \<le> health (enemy_of s r)
               \<and> (r \<in> set (enemies s') \<longleftrightarrow> 0 < health (enemy_of s' r))"
    if "step c s s'" for s'
  proof -
    have "state_inv c s'"
      using state_inv_step [OF that inv] .
    then show ?thesis
      using step_enemies [OF that] by (simp add: state_inv_def state_inv_except_def)
  qed
  have 4: "case Bullet_check_collision b (Bullet_move c b s) of
             None \<Rightarrow> enemy_of s' = enemy_of s \<and> enemies s' = enemies s
           | Some e \<Rightarrow> health (enemy_of s' e) = health (enemy_of s e) - 1
               \<and> (\<forall>r. r \<noteq> e \<longrightarrow> enemy_of s' r = enemy_of s r)"
    if "Bullet_animate c b s = Inr s'" for b s'
    using Bullet_animate_enemies [OF that] by (auto split: option.splits)
  show ?thesis
    using 1 2 3 4 take_damage_in_reachable [OF inv] by blast
qed

theorem C5_target_health_witness:
  "reachable example_constants hit_grid before_hit
   \<and> enemies (GameState_init hit_grid) = [0]
   \<and> enemies before_hit = [0]
   \<and> health (enemy_of before_hit 0) = 1
   \<and> (\<exists>s'. Enemy_take_damage 0 before_hit = Inr s'
         \<and> health (enemy_of s' 0) = 0 \<and> 0 \<notin> set (enemies s'))"
proof -
  have facts: "enemies (GameState_init hit_grid) = [0] \<and> enemies before_hit = [0]
      \<and> health (enemy_of before_hit 0) = 1"
    by code_simp
  show ?thesis
    using C5_target_health [OF before_hit_reachable] before_hit_reachable facts
    by auto
qed

subsection \<open>Bullets leave the collection once\<close>

text \<open>
  Claim C6. With \<open>BULLET_SPEED\<close> at most 10 and at most \<open>SHIP_POSITION_Y + 9\<close>, in every
  reachable state and for every bullet of the collection: the hit branch and the off-screen
  branch of \<open>Bullet.animate\<close> are never both taken; the call returns without \<open>ValueError\<close>
  (which a second \<open>remove\<close> would raise); when the bullet hits or passes row -10 it has left
  the collection when the call returns, the collection being shorter by that one element, and
  otherwise the collection is as before. A whole \<open>GameState.animate()\<close> returns without
  \<open>ValueError\<close> as well.
\<close>

theorem C6_bullet_removed_once:
  assumes "BULLET_SPEED c \<le> 10" and "BULLET_SPEED c \<le> SHIP_POSITION_Y c + 9"
    and "reachable c g s" and "r \<in> set (bullets s)"
  shows "\<not> (hit_branch c r s \<and> exit_branch c r s)
    \<and> (\<exists>s'. Bullet_animate c r s = Inr s'
          \<and> (if hit_branch c r s \<or> exit_branch c r s
              then bullets s' = remove1 r (bullets s) \<and> r \<notin> set (bullets s')
                 \<and> length (bullets s') + 1 = length (bullets s)
              else bullets s' = bullets s)
          \<and> reachable c g s')
    \<and> (\<exists>s''. GameState_animate c s = Inr s'' \<and> reachable c g s'')"
proof -
  have inv: "state_inv c s"
    using assms(3) by (rule reachable_state_inv)
  have d: "distinct (bullets s)"
    using inv by (simp add: state_inv_def state_inv_except_def)
  have excl: "\<not> (hit_branch c r s \<and> exit_branch c r s)"
    using hit_and_exit_exclusive [OF inv assms(4,1,2)] .
  obtain s' where s': "Bullet_animate c r s = Inr s'"
    using Bullet_animate_total [OF inv assms(4,1,2)] by blast
  have len: "length (remove1 r (bullets s)) + 1 = length (bullets s)"
    using assms(4) by (simp add: length_remove1) (metis length_pos_if_in_set Suc_pred)
  have bl: "if hit_branch c r s \<or> exit_branch c r s
              then bullets s' = remove1 r (bullets s) \<and> r \<notin> set (bullets s')
                 \<and> length (bullets s') + 1 = length (bullets s)
              else bullets s' = bullets s"
    using Bullet_animate_effect [OF s']
  proof (elim disjE conjE exE)
    assume "\<not> hit_branch c r s"
      and "if exit_branch c r s
         then r \<in> set (bullets s) \<and> s' = Bullet_move c r s\<lparr>bullets := remove1 r (bullets s)\<rparr>
         else s' = Bullet_move c r s"
    then show ?thesis
      using d len by (auto split: if_splits)
  next
    fix e s3
    assume hit: "Bullet_check_collision r (Bullet_move c r s) = Some e"
      and dmg: "Enemy_take_damage e
                (append_explosion
                   (Explosion_init (of_int (bullet_x (bullet_of s r)))
                      (bullet_y (bullet_of s r) - BULLET_SPEED c) ''small'' (255, 223, 0))
                   (Bullet_move c r s)) = Inr s3"
      and rest: "if exit_branch c r s
         then r \<in> set (remove1 r (bullets s))
            \<and> s' = s3\<lparr>bullets := remove1 r (remove1 r (bullets s))\<rparr>
         else s' = s3\<lparr>bullets := remove1 r (bullets s)\<rparr>"
    have "hit_branch c r s"
      using hit by (simp add: hit_branch_def)
    moreover have "s' = s3\<lparr>bullets := remove1 r (bullets s)\<rparr>"
      using rest d by (auto split: if_splits)
    ultimately show ?thesis
      using d len by simp
  qed
  have r1: "reachable c g s'"
    using assms(3) step_bullet [OF assms(4) s'] unfolding reachable_def
    by (rule rtranclp.rtrancl_into_rtrancl)
  obtain s'' where s'': "GameState_animate c s = Inr s''"
    using GameState_animate_total [OF inv assms(1,2)] by blast
  have r2: "reachable c g s''"
    using assms(3) step_animate [OF s''] unfolding reachable_def
    by (rule rtranclp.rtrancl_into_rtrancl)
  show ?thesis
    using excl s' bl r1 s'' r2 by blast
qed

theorem C6_bullet_removed_once_witness:
  "BULLET_SPEED example_constants \<le> 10
   \<and> BULLET_SPEED example_constants \<le> SHIP_POSITION_Y example_constants + 9
   \<and> reachable example_constants hit_grid before_hit
   \<and> bullets before_hit = [1]
   \<and> hit_branch example_constants 1 before_hit
   \<and> \<not> exit_branch example_constants 1 before_hit
   \<and> (\<exists>s'. Bullet_animate example_constants 1 before_hit = Inr s' \<and> bullets s' = [])"
proof -
  have c1: "BULLET_SPEED example_constants \<le> 10"
    and c2: "BULLET_SPEED example_constants \<le> SHIP_POSITION_Y example_constants + 9"
    by (simp_all add: example_constants_def)
  have facts: "bullets before_hit = [1] \<and> hit_branch example_constants 1 before_hit
      \<and> \<not> exit_branch example_constants 1 before_hit"
    by code_simp
  then have "1 \<in> set (bullets before_hit)"
    by simp
  from C6_bullet_removed_once [OF c1 c2 before_hit_reachable this] show ?thesis
    using c1 c2 before_hit_reachable facts by auto
qed

subsection \<open>Completion\<close>

lemma all_zero_no_targets:
  assumes "\<forall>week\<in>set (weeks g). \<forall>day\<in>set (days week). level day = 0"
  shows "enemies (GameState_init g) = []"
proof -
  have "filter (\<lambda>day. 0 < level day) (days week) = []" if "week \<in> set (weeks g)" for week
    using assms that by (auto simp: filter_empty_conv)
  then have "sum_list (map (\<lambda>week. length (filter (\<lambda>day. 0 < level day) (days week))) (weeks g)) = 0"
    by (simp add: sum_list_eq_0_iff)
  then have "length (enemy_objects (GameState_init g)) = 0"
    using GameState_init_objects [of g] length_grid_targets_from [of 0 "weeks g"]
    by (simp add: grid_targets_def)
  then show ?thesis
    by (simp add: enemy_objects_def)
qed

text \<open>
  Claim C7. \<open>is_complete()\<close> is true exactly when the target collection is empty; once it is
  true it is true after any number of further steps; and for a grid whose cells all have
  intensity 0 it is true right after construction.
\<close>

theorem C7_is_complete_monotone:
  "GameState_is_complete s = (enemies s = [])
   \<and> ((step c)\<^sup>*\<^sup>* s s' \<longrightarrow> GameState_is_complete s \<longrightarrow> GameState_is_complete s')
   \<and> ((\<forall>week\<in>set (weeks g). \<forall>day\<in>set (days week). level day = 0)
        \<longrightarrow> GameState_is_complete (GameState_init g))"
proof -
  have "GameState_is_complete s'" if "(step c)\<^sup>*\<^sup>* s s'" "GameState_is_complete s"
    using steps_enemies [OF that(1)] that(2) by (simp add: GameState_is_complete_def)
  then show ?thesis
    using all_zero_no_targets [of g] by (auto simp: GameState_is_complete_def)
qed

theorem C7_is_complete_monotone_witness:
  "GameState_is_complete (GameState_init zero_grid)
   \<and> GameState_is_complete (GameState_shoot example_constants (GameState_init zero_grid))
   \<and> \<not> GameState_is_complete (GameState_init hit_grid)"
proof -
  have z: "\<forall>week\<in>set (weeks zero_grid). \<forall>day\<in>set (days week). level day = 0"
    by (simp add: zero_grid_def)
  have st: "(step example_constants)\<^sup>*\<^sup>* (GameState_init zero_grid)
      (GameState_shoot example_constants (GameState_init zero_grid))"
    using step_shoot [of example_constants "GameState_init zero_grid"] by (rule r_into_rtranclp)
  have h: "enemies (GameState_init hit_grid) = [0]"
    by code_simp
  show ?thesis
    using C7_is_complete_monotone [of "GameState_init zero_grid" example_constants
        "GameState_shoot example_constants (GameState_init zero_grid)" zero_grid]
      C7_is_complete_monotone [of "GameState_init hit_grid" example_constants
        "GameState_init hit_grid" zero_grid]
      z st h
    by simp
qed

subsection \<open>One pass over the collections\<close>

lemma hit_branch_other:
  "b \<noteq> r \<Longrightarrow> hit_branch c b (Bullet_move c r s) = hit_branch c b s"
  "b \<noteq> r \<Longrightarrow> exit_branch c b (Bullet_move c r s) = exit_branch c b s"
  by (simp_all add: hit_branch_def exit_branch_def Bullet_check_collision_def)

lemma branch_ship_update [simp]:
  "hit_branch c b (s\<lparr>ship := sh\<rparr>) = hit_branch c b s"
  "exit_branch c b (s\<lparr>ship := sh\<rparr>) = exit_branch c b s"
  by (simp_all add: hit_branch_def exit_branch_def Bullet_check_collision_def Bullet_move_def)

lemma Bullet_animate_miss:
  "\<not> hit_branch c r s \<Longrightarrow> \<not> exit_branch c r s \<Longrightarrow> Bullet_animate c r s = Inr (Bullet_move c r s)"
  by (simp add: Bullet_animate_def hit_branch_def exit_branch_def Let_def)

lemma Explosion_animate_young:
  "frame (explosion_of s r) + 1 < max_frames (explosion_of s r) \<Longrightarrow>
   Explosion_animate r s =
     Inr (s\<lparr>explosion_of := (explosion_of s)
            (r := (explosion_of s r)\<lparr>frame := frame (explosion_of s r) + 1\<rparr>)\<rparr>)"
  by (simp add: Explosion_animate_def Let_def)

lemma animate_bullets_no_removal:
  assumes "distinct (bullets s)"
    and "\<forall>b\<in>set (drop i (bullets s)). \<not> hit_branch c b s \<and> \<not> exit_branch c b s"
  shows "animate_bullets c i s =
     Inr (s\<lparr>bullet_of := \<lambda>b. if b \<in> set (drop i (bullets s))
                then (bullet_of s b)\<lparr>bullet_y := bullet_y (bullet_of s b) - BULLET_SPEED c\<rparr>
                else bullet_of s b\<rparr>)"
  using assms
proof (induction c i s rule: animate_bullets.induct)
  case (1 c i s)
  show ?case
  proof (cases "i < length (bullets s)")
    case True
    let ?r = "bullets s ! i"
    let ?t = "Bullet_move c ?r s"
    have dr: "drop i (bullets s) = ?r # drop (Suc i) (bullets s)"
      using True by (simp add: Cons_nth_drop_Suc)
    have miss: "Bullet_animate c ?r s = Inr ?t"
      using "1.prems"(2) dr Bullet_animate_miss by simp
    have "distinct (drop i (bullets s))"
      using "1.prems"(1) by simp
    then have rn: "?r \<notin> set (drop (Suc i) (bullets s))"
      unfolding dr by simp
    have "\<forall>b\<in>set (drop (Suc i) (bullets ?t)). \<not> hit_branch c b ?t \<and> \<not> exit_branch c b ?t"
    proof
      fix b assume b: "b \<in> set (drop (Suc i) (bullets ?t))"
      then have "b \<noteq> ?r" using rn by auto
      moreover have "b \<in> set (drop i (bullets s))" using b dr by simp
      ultimately show "\<not> hit_branch c b ?t \<and> \<not> exit_branch c b ?t"
        using "1.prems"(2) by (simp add: hit_branch_other)
    qed
    then have IH: "animate_bullets c (Suc i) ?t =
       Inr (?t\<lparr>bullet_of := \<lambda>b. if b \<in> set (drop (Suc i) (bullets ?t))
                then (bullet_of ?t b)\<lparr>bullet_y := bullet_y (bullet_of ?t b) - BULLET_SPEED c\<rparr>
                else bullet_of ?t b\<rparr>)"
      using "1.IH" [OF True miss] "1.prems"(1) by simp
    have "?t\<lparr>bullet_of := \<lambda>b. if b \<in> set (drop (Suc i) (bullets ?t))
                then (bullet_of ?t b)\<lparr>bullet_y := bullet_y (bullet_of ?t b) - BULLET_SPEED c\<rparr>
                else bullet_of ?t b\<rparr>
        = s\<lparr>bullet_of := \<lambda>b. if b \<in> set (drop i (bullets s))
                then (bullet_of s b)\<lparr>bullet_y := bullet_y (bullet_of s b) - BULLET_SPEED c\<rparr>
                else bullet_of s b\<rparr>"
      using rn unfolding dr by (auto simp: Bullet_move_def fun_eq_iff)
    then show ?thesis
      using True miss IH by (subst animate_bullets.simps) simp
  next
    case False
    then show ?thesis
      by (subst animate_bullets.simps) simp
  qed
qed

lemma animate_explosions_no_removal:
  assumes "distinct (explosions s)"
    and "\<forall>x\<in>set (drop i (explosions s)).
           frame (explosion_of s x) + 1 < max_frames (explosion_of s x)"
  shows "animate_explosions i s =
     Inr (s\<lparr>explosion_of := \<lambda>x. if x \<in> set (drop i (explosions s))
                then (explosion_of s x)\<lparr>frame := frame (explosion_of s x) + 1\<rparr>
                else explosion_of s x\<rparr>)"
  using assms
proof (induction i s rule: animate_explosions.induct)
  case (1 i s)
  show ?case
  proof (cases "i < length (explosions s)")
    case True
    let ?r = "explosions s ! i"
    let ?t = "s\<lparr>explosion_of := (explosion_of s)
            (?r := (explosion_of s ?r)\<lparr>frame := frame (explosion_of s ?r) + 1\<rparr>)\<rparr>"
    have dr: "drop i (explosions s) = ?r # drop (Suc i) (explosions s)"
      using True by (simp add: Cons_nth_drop_Suc)
    have young: "Explosion_animate ?r s = Inr ?t"
      using "1.prems"(2) dr Explosion_animate_young by simp
    have "distinct (drop i (explosions s))"
      using "1.prems"(1) by simp
    then have rn: "?r \<notin> set (drop (Suc i) (explosions s))"
      unfolding dr by simp
    have "\<forall>x\<in>set (drop (Suc i) (explosions ?t)).
           frame (explosion_of ?t x) + 1 < max_frames (explosion_of ?t x)"
      using "1.prems"(2) rn unfolding dr by auto
    then have IH: "animate_explosions (Suc i) ?t =
       Inr (?t\<lparr>explosion_of := \<lambda>x. if x \<in> set (drop (Suc i) (explosions ?t))
                then (explosion_of ?t x)\<lparr>frame := frame (explosion_of ?t x) + 1\<rparr>
                else explosion_of ?t x\<rparr>)"
      using "1.IH" [OF True young] "1.prems"(1) by simp
    have "?t\<lparr>explosion_of := \<lambda>x. if x \<in> set (drop (Suc i) (explosions ?t))
                then (explosion_of ?t x)\<lparr>frame := frame (explosion_of ?t x) + 1\<rparr>
                else explosion_of ?t x\<rparr>
        = s\<lparr>explosion_of := \<lambda>x. if x \<in> set (drop i (explosions s))
                then (explosion_of s x)\<lparr>frame := frame (explosion_of s x) + 1\<rparr>
                else explosion_of s x\<rparr>"
      using rn unfolding dr by (auto simp: fun_eq_iff)
    then show ?thesis
      using True young IH by (subst animate_explosions.simps) simp
  next
    case False
    then show ?thesis
      by (subst animate_explosions.simps) simp
  qed
qed

text \<open>
  A call of \<open>GameState.animate()\<close> in which no bullet of the collection hits or leaves and no
  explosion reaches its last frame: the ship is animated, every bullet of the collection moves
  up by \<open>BULLET_SPEED\<close> once, the \<open>frame\<close> of every explosion of the collection grows by 1, and
  nothing else changes. An explosion that reaches its last frame is out of the collection as
  soon as its own \<open>animate()\<close> returns, that is, while the loop of \<open>GameState.animate\<close> is still
  running over that collection.
\<close>

lemma animate_without_removal:
  assumes "reachable c g s"
  shows "((\<forall>b\<in>set (bullets s). \<not> hit_branch c b s \<and> \<not> exit_branch c b s)
          \<and> (\<forall>x\<in>set (explosions s).
                frame (explosion_of s x) + 1 < max_frames (explosion_of s x))
          \<longrightarrow> GameState_animate c s =
     Inr (s\<lparr>ship := Ship_animate c (ship s),
           bullet_of := \<lambda>b. if b \<in> set (bullets s)
                then (bullet_of s b)\<lparr>bullet_y := bullet_y (bullet_of s b) - BULLET_SPEED c\<rparr>
                else bullet_of s b,
           explosion_of := \<lambda>x. if x \<in> set (explosions s)
                then (explosion_of s x)\<lparr>frame := frame (explosion_of s x) + 1\<rparr>
                else explosion_of s x\<rparr>))
     \<and> (\<forall>x\<in>set (explosions s).
           max_frames (explosion_of s x) \<le> frame (explosion_of s x) + 1 \<longrightarrow>
           Explosion_animate x s =
             Inr (s\<lparr>explosion_of := (explosion_of s)
                      (x := (explosion_of s x)\<lparr>frame := frame (explosion_of s x) + 1\<rparr>),
                    explosions := remove1 x (explosions s)\<rparr>)
           \<and> x \<notin> set (remove1 x (explosions s)))"
proof (intro conjI impI ballI; (elim conjE)?)
  have inv: "state_inv c s"
    using assms(1) by (rule reachable_state_inv)
  then have d: "distinct (bullets s)" "distinct (explosions s)"
    by (simp_all add: state_inv_def state_inv_except_def)
  {
    fix x
    assume "x \<in> set (explosions s)"
      and "max_frames (explosion_of s x) \<le> frame (explosion_of s x) + 1"
    then show "Explosion_animate x s =
             Inr (s\<lparr>explosion_of := (explosion_of s)
                      (x := (explosion_of s x)\<lparr>frame := frame (explosion_of s x) + 1\<rparr>),
                    explosions := remove1 x (explosions s)\<rparr>)"
      by (simp add: Explosion_animate_def list_remove_def Let_def)
    show "x \<notin> set (remove1 x (explosions s))"
      using d(2) by simp
  }
  assume assms23: "\<forall>b\<in>set (bullets s). \<not> hit_branch c b s \<and> \<not> exit_branch c b s"
    "\<forall>x\<in>set (explosions s). frame (explosion_of s x) + 1 < max_frames (explosion_of s x)"
  note assms = assms assms23
  let ?s1 = "s\<lparr>ship := Ship_animate c (ship s)\<rparr>"
  let ?s3 = "s\<lparr>ship := Ship_animate c (ship s),
           bullet_of := \<lambda>b. if b \<in> set (bullets s)
                then (bullet_of s b)\<lparr>bullet_y := bullet_y (bullet_of s b) - BULLET_SPEED c\<rparr>
                else bullet_of s b\<rparr>"
  have b: "animate_bullets c 0 ?s1 = Inr ?s3"
    using animate_bullets_no_removal [of ?s1 0 c] d assms(2) by (simp cong: if_cong)
  have e: "animate_explosions 0 ?s3 =
     Inr (s\<lparr>ship := Ship_animate c (ship s),
           bullet_of := \<lambda>b. if b \<in> set (bullets s)
                then (bullet_of s b)\<lparr>bullet_y := bullet_y (bullet_of s b) - BULLET_SPEED c\<rparr>
                else bullet_of s b,
           explosion_of := \<lambda>x. if x \<in> set (explosions s)
                then (explosion_of s x)\<lparr>frame := frame (explosion_of s x) + 1\<rparr>
                else explosion_of s x\<rparr>)"
    using animate_explosions_no_removal [of ?s3 0] d assms(3) by (simp cong: if_cong)
  show "GameState_animate c s =
     Inr (s\<lparr>ship := Ship_animate c (ship s),
           bullet_of := \<lambda>b. if b \<in> set (bullets s)
                then (bullet_of s b)\<lparr>bullet_y := bullet_y (bullet_of s b) - BULLET_SPEED c\<rparr>
                else bullet_of s b,
           explosion_of := \<lambda>x. if x \<in> set (explosions s)
                then (explosion_of s x)\<lparr>frame := frame (explosion_of s x) + 1\<rparr>
                else explosion_of s x\<rparr>)"
    by (simp add: GameState_animate_def Let_def b e)
qed

lemma animate_without_removal_example:
  "bullets second_shot = [4] \<and> explosions second_shot = [2, 3]
   \<and> frame (explosion_of second_shot 2) = 1 \<and> frame (explosion_of second_shot 3) = 1
   \<and> bullet_y (bullet_of second_shot 4) = 9
   \<and> \<not> isl (GameState_animate example_constants second_shot)
   \<and> bullets (projr (GameState_animate example_constants second_shot)) = [4]
   \<and> explosions (projr (GameState_animate example_constants second_shot)) = [2, 3]
   \<and> bullet_y (bullet_of (projr (GameState_animate example_constants second_shot)) 4) = 8
   \<and> frame (explosion_of (projr (GameState_animate example_constants second_shot)) 2) = 2
   \<and> frame (explosion_of (projr (GameState_animate example_constants second_shot)) 3) = 2
   \<and> explosions before_expiry = [2, 3]
   \<and> max_frames (explosion_of before_expiry 2) \<le> frame (explosion_of before_expiry 2) + 1
   \<and> explosions (projr (Explosion_animate 2 before_expiry)) = [3]"
proof -
  have late: "explosions before_expiry = [2, 3]
      \<and> max_frames (explosion_of before_expiry 2) \<le> frame (explosion_of before_expiry 2) + 1"
    by code_simp
  have gone: "explosions (projr (Explosion_animate 2 before_expiry)) = [3]"
    using animate_without_removal [OF before_expiry_reachable] late by simp
  have b: "\<forall>b\<in>set (bullets second_shot).
      \<not> hit_branch example_constants b second_shot \<and> \<not> exit_branch example_constants b second_shot"
    by code_simp
  have x: "\<forall>x\<in>set (explosions second_shot).
      frame (explosion_of second_shot x) + 1 < max_frames (explosion_of second_shot x)"
    by code_simp
  have facts: "bullets second_shot = [4] \<and> explosions second_shot = [2, 3]
   \<and> frame (explosion_of second_shot 2) = 1 \<and> frame (explosion_of second_shot 3) = 1
   \<and> bullet_y (bullet_of second_shot 4) = 9 \<and> BULLET_SPEED example_constants = 1"
    by code_simp
  show ?thesis
    using animate_without_removal [OF second_shot_reachable] b x facts late gone
    by simp
qed

text \<open>
  Claim C1. The code does not do this. \<open>GameState.animate\<close> (``Update all game objects for next
  frame'') runs a \<open>for\<close> loop over \<open>self.explosions\<close>, and \<open>Explosion.animate\<close> removes the explosion
  from that very list when it reaches its last frame; the list iterator then passes over the
  element that follows it. On the grid \<open>hit_grid\<close> the bullet destroys the target in the third
  \<open>animate()\<close> after the shot, which creates the explosions 2 (small, 6 frames) and 3 (large, 10
  frames). Seven calls after the shot both are in the collection with \<open>frame\<close> 5. A call of
  \<open>Explosion.animate\<close> on explosion 2 in that state takes it out of the collection, and a call
  on explosion 3 would bring its \<open>frame\<close> to 6. In the eighth \<open>animate()\<close> explosion 2 removes itself
  during the pass, and explosion 3, in the collection when the call started and when it
  returned, still has \<open>frame\<close> 5: its \<open>animate()\<close> was not invoked in that call.
\<close>

theorem C1_explosion_skipped:
  "\<not> isl (animate_n example_constants 7 first_shot)
   \<and> explosions before_expiry = [2, 3]
   \<and> frame (explosion_of before_expiry 2) = 5
   \<and> frame (explosion_of before_expiry 3) = 5
   \<and> \<not> isl (Explosion_animate 2 before_expiry)
   \<and> explosions (projr (Explosion_animate 2 before_expiry)) = [3]
   \<and> \<not> isl (Explosion_animate 3 before_expiry)
   \<and> frame (explosion_of (projr (Explosion_animate 3 before_expiry)) 3) = 6
   \<and> \<not> isl (GameState_animate example_constants before_expiry)
   \<and> explosions (projr (GameState_animate example_constants before_expiry)) = [3]
   \<and> frame (explosion_of (projr (GameState_animate example_constants before_expiry)) 3) = 5"
  by code_simp

end
